theory Spec2Isabelle
  imports Main "HOL-Library.Log_Nat" "HOL-Library.Product_Lexorder"
begin

section \<open>Python floats\<close>

text \<open>
  Prices in \<^verbatim>\<open>StraddleStrategy.py\<close> are Python floats, that is IEEE 754 binary64
  numbers, and every arithmetic operator rounds its exact result to the nearest such
  number, ties to the even significand. A finite float is modelled by the rational it
  denotes. \<open>ilog2 x\<close> is the binary exponent of a positive \<open>x\<close>
  (\<open>2 powi ilog2 x \<le> x < 2 powi (ilog2 x + 1)\<close>), \<open>uexp x\<close> the exponent of the
  unit in the last place of the 53-bit significand (subnormal numbers, below
  \<open>2 powi - 1022\<close>, share the exponent \<open>- 1074\<close>), \<open>rne\<close> rounds a rational to the
  nearest integer, ties to even, and \<open>binary64\<close> is the rounding of a rational with the
  exponent unbounded above.
\<close>

definition ilog2 :: "rat \<Rightarrow> int" where
  "ilog2 x = (if 1 \<le> x then bitlen \<lfloor>x\<rfloor> - 1 else - bitlen (\<lceil>1 / x\<rceil> - 1))"

definition rne :: "rat \<Rightarrow> int" where
  "rne q = (let f = \<lfloor>q\<rfloor>; d = q - of_int f in
     if d < 1 / 2 then f else if 1 / 2 < d then f + 1 else if even f then f else f + 1)"

definition uexp :: "rat \<Rightarrow> int" where
  "uexp x = max (ilog2 \<bar>x\<bar>) (- 1022) - 52"

definition binary64 :: "rat \<Rightarrow> rat" where
  "binary64 x = (if x = 0 then 0 else
     let u = 2 powi uexp x in of_int (rne (x / u)) * u)"

text \<open>
  A Python float is a finite number or one of \<open>inf\<close>, \<open>-inf\<close> and \<open>nan\<close>. The
  operations the strategy applies (\<open>+\<close>, \<open>-\<close>, \<open>*\<close>, division by the literal
  \<open>100.0\<close>, \<open>%\<close> by a finite number) never give a finite result from a non-finite
  operand, so the three non-finite values are kept as one, \<open>NonFinite\<close>. A result whose
  rounding reaches \<open>2 ^ 1024\<close> overflows to an infinity.
\<close>

datatype pyfloat = Finite rat | NonFinite

definition fl :: "rat \<Rightarrow> pyfloat" where
  "fl x = (let r = binary64 x in if \<bar>r\<bar> < 2 ^ 1024 then Finite r else NonFinite)"

fun fadd :: "pyfloat \<Rightarrow> pyfloat \<Rightarrow> pyfloat" where
  "fadd (Finite a) (Finite b) = fl (a + b)"
| "fadd _ _ = NonFinite"

fun fsub :: "pyfloat \<Rightarrow> pyfloat \<Rightarrow> pyfloat" where
  "fsub (Finite a) (Finite b) = fl (a - b)"
| "fsub _ _ = NonFinite"

fun fmul :: "pyfloat \<Rightarrow> pyfloat \<Rightarrow> pyfloat" where
  "fmul (Finite a) (Finite b) = fl (a * b)"
| "fmul _ _ = NonFinite"

text \<open>\<open>div100 x\<close> is \<^verbatim>\<open>x / 100.0\<close>, the only division in the file.\<close>

fun div100 :: "pyfloat \<Rightarrow> pyfloat" where
  "div100 (Finite a) = fl (a / 100)"
| "div100 NonFinite = NonFinite"

text \<open>
  \<^verbatim>\<open>x % t\<close> on floats is CPython's \<^verbatim>\<open>float_rem\<close>: for a divisor other than zero, C's
  \<^verbatim>\<open>fmod\<close>, which is exact (the remainder of two floats is a float) and has the sign
  of \<open>x\<close>, then one addition of \<open>t\<close> when the signs of the remainder and of \<open>t\<close>
  differ. The divisor is a finite float; a zero divisor raises \<^verbatim>\<open>ZeroDivisionError\<close>
  before anything else is looked at (\<open>py_mod\<close>).
\<close>

datatype error = AttributeError | ZeroDivisionError

definition fmod :: "rat \<Rightarrow> rat \<Rightarrow> rat" where
  "fmod a t = a - t * of_int (if 0 \<le> a / t then \<lfloor>a / t\<rfloor> else \<lceil>a / t\<rceil>)"

definition float_rem :: "pyfloat \<Rightarrow> rat \<Rightarrow> pyfloat" where
  "float_rem x t = (case x of
       NonFinite \<Rightarrow> NonFinite
     | Finite a \<Rightarrow>
         (let m = fmod a t in
          if m \<noteq> 0 \<and> ((t < 0) \<noteq> (m < 0)) then fl (m + t) else Finite m))"

definition py_mod :: "pyfloat \<Rightarrow> rat \<Rightarrow> error + pyfloat" where
  "py_mod x t = (if t = 0 then Inl ZeroDivisionError else Inr (float_rem x t))"

section \<open>The protection pricer\<close>

text \<open>
  The attributes set once in \<^verbatim>\<open>__init__\<close>. The literal \<^verbatim>\<open>0.05\<close> is the float nearest
  to one twentieth.
\<close>

definition tickSize :: rat where
  "tickSize = binary64 (1 / 20)"

definition marketProtectionPercentage :: rat where
  "marketProtectionPercentage = 15"

definition stopLimitBufferPercentage :: int where
  "stopLimitBufferPercentage = 15"

definition maxEntries :: nat where
  "maxEntries = 3"

definition hedgesNStrikesAway :: int where
  "hedgesNStrikesAway = 8"

text \<open>
  \<^verbatim>\<open>getRoundedOffPriceByTickSize\<close> is \<^verbatim>\<open>price - (price % self.tickSize)\<close>; the tick size
  it reads from \<^verbatim>\<open>self\<close> is the first argument here.
\<close>

definition getRoundedOffPriceByTickSize :: "rat \<Rightarrow> pyfloat \<Rightarrow> error + pyfloat" where
  "getRoundedOffPriceByTickSize tick price =
     (case py_mod price tick of
        Inl e \<Rightarrow> Inl e
      | Inr m \<Rightarrow> Inr (fsub price m))"

datatype Action = BUY | BUY_TO_COVER | SELL | SELL_SHORT

text \<open>
  The limit price of \<^verbatim>\<open>enterWithMarketProtection\<close> (lines 233 to 239), with the two
  attributes it reads, the tick size and the protection percentage, as arguments. The
  percentage is a Python number; dividing it by \<^verbatim>\<open>100.0\<close> converts it to a float
  first, and the integer \<open>1\<close> is converted likewise.
\<close>

definition limitPrice :: "rat \<Rightarrow> rat \<Rightarrow> Action \<Rightarrow> pyfloat \<Rightarrow> error + pyfloat" where
  "limitPrice tick pct action close =
     (if action = BUY
      then getRoundedOffPriceByTickSize tick (fmul close (fadd (fl 1) (div100 (fl pct))))
      else getRoundedOffPriceByTickSize tick (fmul close (fsub (fl 1) (div100 (fl pct)))))"

text \<open>
  The factor the reference price is multiplied by, \<^verbatim>\<open>1 + pct / 100.0\<close> for a buy and
  \<^verbatim>\<open>1 - pct / 100.0\<close> otherwise, as the number it is when it is finite.
\<close>

definition markup :: "bool \<Rightarrow> rat \<Rightarrow> rat" where
  "markup up pct = binary64 ((if up then (+) else (-)) 1 (binary64 (binary64 pct / 100)))"

section \<open>The stop-loss schedule\<close>

text \<open>
  A \<^verbatim>\<open>datetime.time\<close> is its fields hour, minute, second and microsecond; Python
  compares two of them field by field in that order, which is the lexicographic order
  of the tuple. The dictionary \<^verbatim>\<open>self.stopLosses\<close> is the list of its items in
  insertion order, the order in which \<^verbatim>\<open>items()\<close> yields them.
\<close>

type_synonym pytime = "nat \<times> nat \<times> nat \<times> nat"

definition hm :: "nat \<Rightarrow> nat \<Rightarrow> pytime" where
  "hm h m = (h, m, 0, 0)"

definition stopLosses :: "(pytime \<times> int) list" where
  "stopLosses =
     [(hm 9 15, 40), (hm 9 30, 40), (hm 9 45, 40), (hm 10 0, 40), (hm 10 15, 40),
      (hm 10 30, 45), (hm 10 45, 50), (hm 11 0, 50), (hm 11 15, 50), (hm 11 30, 50),
      (hm 11 45, 50), (hm 12 0, 50), (hm 12 15, 50), (hm 12 30, 50), (hm 12 45, 50),
      (hm 13 0, 60), (hm 13 15, 70), (hm 13 30, 80), (hm 13 45, 90), (hm 14 0, 100),
      (hm 14 15, 100), (hm 14 30, 100), (hm 14 45, 100)]"

definition exitTime :: pytime where
  "exitTime = hm 15 24"

text \<open>
  Lines 267 and 268 of \<^verbatim>\<open>onEnterOk\<close>: the values of the items whose time is before
  the current time, and the last of them, or 20 when there is none.
\<close>

definition stopLossPercentage :: "(pytime \<times> int) list \<Rightarrow> pytime \<Rightarrow> int" where
  "stopLossPercentage schedule now =
     (let stopLossesList = map snd (filter (\<lambda>(t, v). t < now) schedule)
      in if stopLossesList \<noteq> [] then last stopLossesList else 20)"

section \<open>The strategy\<close>

text \<open>
  A \<^verbatim>\<open>Position\<close> is an object of the broker library; the strategy holds references to
  it and compares them by identity, so a position is modelled by the number of its
  object. A variable that holds a position or \<^verbatim>\<open>None\<close> is a \<open>Position option\<close>.
\<close>

type_synonym Position = int

type_synonym symbol = string

record StraddlePosition =
  ceHedge :: "Position option"
  peHedge :: "Position option"
  ceShort :: "Position option"
  peShort :: "Position option"
  strike :: int

text \<open>
  Modelled from the spec: the enumeration \<^verbatim>\<open>pyalgomate.core.State\<close> is imported by the
  file and not part of it; these are the five phases the specification lists, all of
  which the file names.
\<close>

datatype State = LIVE | PLACING_ORDERS | ENTERED | SQUARING_OFF | EXITED

text \<open>
  What the strategy asks of the broker library is recorded, in order, as a list of
  requests: entry orders (symbol, limit price, quantity), exit orders and cancellations
  of a position's exit order.
\<close>

datatype request =
    EnterLongLimit symbol pyfloat int
  | EnterShortLimit symbol pyfloat int
  | ExitLimit Position pyfloat
  | ExitStopLimit Position pyfloat pyfloat
  | CancelExit Position

text \<open>
  The answers of the collaborators (feed, broker, base class) at the moment of one call:
  \<^item> \<open>atmStrike\<close>: \<^verbatim>\<open>self.getATMStrike(self.getLastPrice(self.underlying), self.strikeDifference)\<close>;
  \<^item> \<open>strikeDifference\<close>, \<open>quantity\<close>: the attributes of these names, computed in
    \<^verbatim>\<open>__init__\<close> from the broker's details of the underlying;
  \<^item> \<open>getOptionSymbol k t\<close>: the broker's symbol for strike \<open>k\<close> and option type \<open>t\<close> at
    the current expiry;
  \<^item> \<open>getLastBar instrument\<close>: the close of the feed's last bar of \<open>instrument\<close>, \<open>None\<close> without a bar;
  \<^item> \<open>entryPrice p\<close>: the price of the execution info of the entry order of \<open>p\<close>, \<open>None\<close>
    when the order has no execution info;
  \<^item> \<open>exitActive\<close>, \<open>exitFilled\<close>, \<open>entryIsBuy\<close>, \<open>getInstrument\<close>: the methods of a position;
  \<^item> \<open>getActivePositions\<close>, \<open>getClosedPositions\<close>, \<open>isPendingOrdersCompleted\<close>,
    \<open>marketEndTime\<close>: the base class;
  \<^item> \<open>currentTime\<close>: the time of day of the feed's current date-time.
\<close>

record world =
  atmStrike :: "int option"
  strikeDifference :: int
  quantity :: int
  getOptionSymbol :: "int \<Rightarrow> char \<Rightarrow> symbol"
  getLastBar :: "symbol \<Rightarrow> pyfloat option"
  getInstrument :: "Position \<Rightarrow> symbol"
  entryIsBuy :: "Position \<Rightarrow> bool"
  entryPrice :: "Position \<Rightarrow> pyfloat option"
  exitActive :: "Position \<Rightarrow> bool"
  exitFilled :: "Position \<Rightarrow> bool"
  getActivePositions :: "Position list"
  getClosedPositions :: "Position list"
  isPendingOrdersCompleted :: bool
  marketEndTime :: pytime
  currentTime :: pytime

text \<open>
  The attributes of \<^verbatim>\<open>self\<close> that change: the phase, the four pending sets and the set
  of straddle positions. Two more fields make the effects on the broker explicit: the
  requests sent so far and the number the next new position object gets.

  \<^verbatim>\<open>self.positions\<close> is a Python set of \<^verbatim>\<open>StraddlePosition\<close> objects, hashed by
  identity, and of \<^verbatim>\<open>None\<close>. It is modelled by the list of its elements: adding a
  newly constructed object always adds an element, even if an object with the same
  fields is there, and adding \<^verbatim>\<open>None\<close> a second time adds nothing.
\<close>

record strategy =
  state :: State
  pendingEntry :: "Position option set"
  pendingSLToCost :: "Position option set"
  pendingCancelExit :: "Position option set"
  pendingExit :: "Position option set"
  positions :: "StraddlePosition option list"
  requests :: "request list"
  nextPosition :: Position

definition positions_add :: "StraddlePosition option \<Rightarrow> StraddlePosition option list \<Rightarrow> StraddlePosition option list" where
  "positions_add x ps =
     (case x of
        None \<Rightarrow> if None \<in> set ps then ps else ps @ [None]
      | Some g \<Rightarrow> ps @ [Some g])"

text \<open>
  Modelled from the spec: the phase that \<^verbatim>\<open>super().reset()\<close> leaves. The call is the
  first line of \<^verbatim>\<open>__reset__\<close> and belongs to the base class, which is not part of the
  file; the specification has the session boundary reset the phase, and \<open>LIVE\<close> is its
  phase with nothing entered. The rest of \<open>reset\<close> is \<^verbatim>\<open>__reset__\<close> as written, and
  \<open>initial\<close> is the strategy as \<^verbatim>\<open>__init__\<close> leaves it. No result below depends on
  which phase this is.
\<close>

definition reset :: "strategy \<Rightarrow> strategy" where
  "reset s = s\<lparr>state := LIVE, pendingEntry := {}, pendingSLToCost := {},
     pendingCancelExit := {}, pendingExit := {}, positions := []\<rparr>"

definition initial :: strategy where
  "initial = \<lparr>state = LIVE, pendingEntry = {}, pendingSLToCost = {},
     pendingCancelExit = {}, pendingExit = {}, positions = [], requests = [],
     nextPosition = 0\<rparr>"

subsection \<open>Entering\<close>

text \<open>
  A call returns a value with the state it leaves (\<open>Inr\<close>) or raises an exception in
  the state reached so far (\<open>Inl\<close>). \<^verbatim>\<open>enterLongLimit\<close> and \<^verbatim>\<open>enterShortLimit\<close> send
  the order and return a new position object.
\<close>

definition enterWithMarketProtection ::
  "world \<Rightarrow> symbol \<Rightarrow> Action \<Rightarrow> strategy \<Rightarrow> (error \<times> strategy) + (Position option \<times> strategy)" where
  "enterWithMarketProtection w instrument action s =
     (case getLastBar w instrument of
        None \<Rightarrow> Inr (None, s)
      | Some close \<Rightarrow>
          (case limitPrice tickSize marketProtectionPercentage action close of
             Inl e \<Rightarrow> Inl (e, s)
           | Inr price \<Rightarrow>
               Inr (Some (nextPosition s),
                    s\<lparr>requests := requests s @
                         [if action = BUY then EnterLongLimit instrument price (quantity w)
                          else EnterShortLimit instrument price (quantity w)],
                      nextPosition := nextPosition s + 1\<rparr>)))"

definition enterPositions ::
  "world \<Rightarrow> strategy \<Rightarrow> (error \<times> strategy) + (StraddlePosition option \<times> strategy)" where
  "enterPositions w s =
     (case atmStrike w of
        None \<Rightarrow> Inr (None, s)
      | Some atm \<Rightarrow>
          (let ceHedgeSymbol = getOptionSymbol w (atm + hedgesNStrikesAway * strikeDifference w) CHR ''c'';
               ceShortSymbol = getOptionSymbol w atm CHR ''c'';
               peHedgeSymbol = getOptionSymbol w (atm - hedgesNStrikesAway * strikeDifference w) CHR ''p'';
               peShortSymbol = getOptionSymbol w atm CHR ''p''
           in
           case enterWithMarketProtection w ceHedgeSymbol BUY (s\<lparr>state := PLACING_ORDERS\<rparr>) of
             Inl x \<Rightarrow> Inl x
           | Inr (ceHedgePosition, s1) \<Rightarrow>
          (case enterWithMarketProtection w peHedgeSymbol BUY s1 of
             Inl x \<Rightarrow> Inl x
           | Inr (peHedgePosition, s2) \<Rightarrow>
          (case enterWithMarketProtection w ceShortSymbol SELL s2 of
             Inl x \<Rightarrow> Inl x
           | Inr (ceShortPosition, s3) \<Rightarrow>
          (case enterWithMarketProtection w peShortSymbol SELL s3 of
             Inl x \<Rightarrow> Inl x
           | Inr (peShortPosition, s4) \<Rightarrow>
               Inr (Some \<lparr>ceHedge = ceHedgePosition, peHedge = peHedgePosition,
                           ceShort = ceShortPosition, peShort = peShortPosition, strike = atm\<rparr>,
                    s4\<lparr>pendingEntry :=
                         insert peShortPosition (insert ceShortPosition
                           (insert peHedgePosition (insert ceHedgePosition (pendingEntry s4))))\<rparr>))))))"

text \<open>
  \<^verbatim>\<open>onResampledBars\<close>: the trigger is the constant \<^verbatim>\<open>True\<close>; an exception of
  \<^verbatim>\<open>enterPositions\<close> is caught and logged, and what it had changed stays changed.
\<close>

definition onResampledBars :: "world \<Rightarrow> strategy \<Rightarrow> strategy" where
  "onResampledBars w s =
     (if length (positions s) = maxEntries then s
      else case enterPositions w s of
             Inl (e, s') \<Rightarrow> s'
           | Inr (r, s') \<Rightarrow> s'\<lparr>positions := positions_add r (positions s')\<rparr>)"

subsection \<open>Leaving\<close>

definition exitWithMarketProtection ::
  "world \<Rightarrow> Position \<Rightarrow> strategy \<Rightarrow> (error \<times> strategy) + strategy" where
  "exitWithMarketProtection w position s =
     (case getLastBar w (getInstrument w position) of
        None \<Rightarrow> Inr s
      | Some close \<Rightarrow>
          (case limitPrice tickSize marketProtectionPercentage
                  (if entryIsBuy w position then SELL else BUY) close of
             Inl e \<Rightarrow> Inl (e, s)
           | Inr price \<Rightarrow> Inr (s\<lparr>requests := requests s @ [ExitLimit position price]\<rparr>)))"

text \<open>
  The loop of \<^verbatim>\<open>closeAllPositions\<close> over the list of active positions taken when it
  starts.
\<close>

fun closeEach :: "world \<Rightarrow> Position list \<Rightarrow> strategy \<Rightarrow> (error \<times> strategy) + strategy" where
  "closeEach w [] s = Inr s"
| "closeEach w (position # rest) s =
     (if exitActive w position
      then closeEach w rest
             (s\<lparr>pendingCancelExit := insert (Some position) (pendingCancelExit s),
                pendingExit := insert (Some position) (pendingExit s),
                requests := requests s @ [CancelExit position]\<rparr>)
      else case exitWithMarketProtection w position
                  (s\<lparr>pendingExit := insert (Some position) (pendingExit s)\<rparr>) of
             Inl x \<Rightarrow> Inl x
           | Inr s' \<Rightarrow> closeEach w rest s')"

definition closeAllPositions :: "world \<Rightarrow> strategy \<Rightarrow> (error \<times> strategy) + strategy" where
  "closeAllPositions w s = closeEach w (getActivePositions w) (s\<lparr>state := SQUARING_OFF\<rparr>)"

subsection \<open>The callbacks\<close>

text \<open>
  \<^verbatim>\<open>getStraddlePosition\<close>: the comprehension runs over every element of
  \<^verbatim>\<open>self.positions\<close> and reads \<^verbatim>\<open>ceShort\<close> and \<^verbatim>\<open>peShort\<close> of each, which raises
  \<^verbatim>\<open>AttributeError\<close> on the element \<^verbatim>\<open>None\<close>.
\<close>

fun straddlePositions :: "StraddlePosition option list \<Rightarrow> Position \<Rightarrow> error + StraddlePosition list" where
  "straddlePositions [] position = Inr []"
| "straddlePositions (None # rest) position = Inl AttributeError"
| "straddlePositions (Some straddlePosition # rest) position =
     (case straddlePositions rest position of
        Inl e \<Rightarrow> Inl e
      | Inr found \<Rightarrow>
          Inr (if Some position = ceShort straddlePosition \<or> Some position = peShort straddlePosition
               then straddlePosition # found else found))"

definition getStraddlePosition :: "strategy \<Rightarrow> Position \<Rightarrow> error + StraddlePosition option" where
  "getStraddlePosition s position =
     (case straddlePositions (positions s) position of
        Inl e \<Rightarrow> Inl e
      | Inr [] \<Rightarrow> Inr None
      | Inr (straddlePosition # rest) \<Rightarrow> Inr (Some straddlePosition))"

text \<open>
  The four handlers. Each first calls the handler of the base class, which is not part
  of the file and is taken to leave the attributes above alone. The literal \<^verbatim>\<open>0.05\<close>
  of the stop computations is the same float as the tick size, and not zero, so its
  remainder is \<open>float_rem\<close>. The current time \<^verbatim>\<open>onEnterOk\<close> reads is
  \<^verbatim>\<open>self.getCurrentDateTime().time()\<close>.
\<close>

definition onEnterOk :: "world \<Rightarrow> Position \<Rightarrow> strategy \<Rightarrow> (error \<times> strategy) + strategy" where
  "onEnterOk w position s =
     (let s1 = s\<lparr>pendingEntry := pendingEntry s - {Some position}\<rparr> in
      case getStraddlePosition s1 position of
        Inl e \<Rightarrow> Inl (e, s1)
      | Inr None \<Rightarrow> Inr s1
      | Inr (Some straddlePosition) \<Rightarrow>
          (let percentage = stopLossPercentage stopLosses (currentTime w) in
           case entryPrice w position of
             None \<Rightarrow> Inl (AttributeError, s1)
           | Some price \<Rightarrow>
               (let stopLoss0 = fmul price (fadd (fl 1) (div100 (fl (of_int percentage))));
                    stopLoss = fsub stopLoss0 (float_rem stopLoss0 (binary64 (1 / 20)));
                    stopLossBuffer0 = fmul stopLoss (div100 (fl (of_int (100 + stopLimitBufferPercentage))));
                    stopLossBuffer = fsub stopLossBuffer0 (float_rem stopLossBuffer0 (binary64 (1 / 20)))
                in Inr (s1\<lparr>requests := requests s1 @ [ExitStopLimit position stopLoss stopLossBuffer]\<rparr>))))"

definition onEnterCanceled :: "world \<Rightarrow> Position \<Rightarrow> strategy \<Rightarrow> (error \<times> strategy) + strategy" where
  "onEnterCanceled w position s = Inr (s\<lparr>pendingEntry := pendingEntry s - {Some position}\<rparr>)"

definition onExitCanceled :: "world \<Rightarrow> Position \<Rightarrow> strategy \<Rightarrow> (error \<times> strategy) + strategy" where
  "onExitCanceled w position s =
     (let s1 = s\<lparr>pendingCancelExit := pendingCancelExit s - {Some position}\<rparr> in
      if Some position \<in> pendingSLToCost s1 then
        (case entryPrice w position of
           None \<Rightarrow> Inl (AttributeError, s1)
         | Some price \<Rightarrow>
             (let cost = fsub price (float_rem price (binary64 (1 / 20)));
                  stopLossBuffer0 = fmul cost (div100 (fl (of_int (100 + stopLimitBufferPercentage))));
                  stopLossBuffer = fsub stopLossBuffer0 (float_rem stopLossBuffer0 (binary64 (1 / 20)))
              in Inr (s1\<lparr>state := (if state s1 \<noteq> SQUARING_OFF then PLACING_ORDERS else state s1),
                        requests := requests s1 @ [ExitStopLimit position cost stopLossBuffer],
                        pendingSLToCost := pendingSLToCost s1 - {Some position}\<rparr>)))
      else if Some position \<in> pendingExit s1 then
        exitWithMarketProtection w position
          (s1\<lparr>state := (if state s1 \<noteq> SQUARING_OFF then PLACING_ORDERS else state s1)\<rparr>)
      else Inr s1)"

definition onExitOk :: "world \<Rightarrow> Position \<Rightarrow> strategy \<Rightarrow> (error \<times> strategy) + strategy" where
  "onExitOk w position s =
     (let s1 = s\<lparr>pendingExit := pendingExit s - {Some position}\<rparr> in
      if state s1 = SQUARING_OFF then Inr s1
      else case getStraddlePosition s1 position of
        Inl e \<Rightarrow> Inl (e, s1)
      | Inr None \<Rightarrow> Inr s1
      | Inr (Some straddlePosition) \<Rightarrow>
          (case (if Some position \<noteq> ceShort straddlePosition
                 then ceShort straddlePosition else peShort straddlePosition) of
             None \<Rightarrow> Inl (AttributeError, s1)
           | Some otherPosition \<Rightarrow>
               if exitFilled w otherPosition then Inr s1
               else if exitActive w otherPosition then
                 Inr (s1\<lparr>state := PLACING_ORDERS,
                         pendingSLToCost := insert (Some otherPosition) (pendingSLToCost s1),
                         requests := requests s1 @ [CancelExit otherPosition]\<rparr>)
               else Inr s1))"

subsection \<open>The driver\<close>

definition handlePlacingOrders :: "world \<Rightarrow> strategy \<Rightarrow> strategy" where
  "handlePlacingOrders w s =
     (if pendingEntry s \<noteq> {} \<or> pendingSLToCost s \<noteq> {} \<or> pendingCancelExit s \<noteq> {}
         \<or> pendingExit s \<noteq> {} then s
      else if \<not> isPendingOrdersCompleted w then s
      else if state s = SQUARING_OFF \<and> exitTime \<le> currentTime w then s\<lparr>state := EXITED\<rparr>
      else if length (getActivePositions w) = 0 then s\<lparr>state := LIVE\<rparr>
      else s\<lparr>state := ENTERED\<rparr>)"

text \<open>
  \<^verbatim>\<open>strategyLogic\<close> without its report (\<^verbatim>\<open>sendInfo\<close>, \<^verbatim>\<open>lastSentTime\<close>, the log and the
  image), which touches none of the attributes above. An exception inside is caught
  and logged. Its last act, in a backtest, hands the bars to the resampler, whose call
  of \<^verbatim>\<open>onResampledBars\<close> is an event of its own below.
\<close>

definition strategyLogic :: "world \<Rightarrow> strategy \<Rightarrow> strategy" where
  "strategyLogic w s =
     (let s1 = (if state s = PLACING_ORDERS \<or> state s = SQUARING_OFF
                then handlePlacingOrders w s else s) in
      if marketEndTime w \<le> currentTime w then
        (if 0 < length (getActivePositions w) + length (getClosedPositions w) then reset s1 else s1)
      else if exitTime \<le> currentTime w then
        (if state s1 = ENTERED then
           (case closeAllPositions w s1 of Inl (e, s') \<Rightarrow> s' | Inr s' \<Rightarrow> s')
         else s1)
      else s1)"

subsection \<open>The event loop\<close>

text \<open>
  One event is a resampled bar, a tick of the driver (\<^verbatim>\<open>onBars\<close> or \<^verbatim>\<open>onIdle\<close>), a
  direct call of \<^verbatim>\<open>closeAllPositions\<close>, or one of the four callbacks for a position; it
  comes with the answers the collaborators give while it is handled. \<open>step\<close> is the
  state the event leaves, whether its handler returned or raised.
\<close>

datatype event =
    ResampledBars
  | Tick
  | CloseAllPositions
  | EnterOk Position
  | EnterCanceled Position
  | ExitOk Position
  | ExitCanceled Position

definition after :: "(error \<times> strategy) + strategy \<Rightarrow> strategy" where
  "after r = (case r of Inl (e, s) \<Rightarrow> s | Inr s \<Rightarrow> s)"

fun step :: "world \<Rightarrow> event \<Rightarrow> strategy \<Rightarrow> strategy" where
  "step w ResampledBars s = onResampledBars w s"
| "step w Tick s = strategyLogic w s"
| "step w CloseAllPositions s = after (closeAllPositions w s)"
| "step w (EnterOk p) s = after (onEnterOk w p s)"
| "step w (EnterCanceled p) s = after (onEnterCanceled w p s)"
| "step w (ExitOk p) s = after (onExitOk w p s)"
| "step w (ExitCanceled p) s = after (onExitCanceled w p s)"

fun run :: "strategy \<Rightarrow> (world \<times> event) list \<Rightarrow> strategy" where
  "run s [] = s"
| "run s ((w, ev) # rest) = run (step w ev s) rest"

subsection \<open>Sessions\<close>

text \<open>
  A run stays within one session when no tick of the driver comes at or after the end
  of the market, where \<^verbatim>\<open>strategyLogic\<close> resets the strategy. \<open>enterPositionsCalls\<close> lists
  the calls of \<^verbatim>\<open>enterPositions\<close> a run makes, each by the answers it got: one for every
  resampled bar that does not find exactly \<open>maxEntries\<close> elements in
  \<^verbatim>\<open>self.positions\<close>.
\<close>

fun within_session :: "(world \<times> event) list \<Rightarrow> bool" where
  "within_session [] = True"
| "within_session ((w, ev) # rest) =
     ((ev = Tick \<longrightarrow> currentTime w < marketEndTime w) \<and> within_session rest)"

fun enterPositionsCalls :: "strategy \<Rightarrow> (world \<times> event) list \<Rightarrow> world list" where
  "enterPositionsCalls s [] = []"
| "enterPositionsCalls s ((w, ev) # rest) =
     (if ev = ResampledBars \<and> length (positions s) \<noteq> maxEntries then [w] else [])
       @ enterPositionsCalls (step w ev s) rest"

text \<open>
  What the strategy takes for granted about the broker library while it handles an
  event: the active positions it reports are positions the strategy has created, and
  a position whose entry is still pending has no live exit order.
\<close>

definition broker_consistent :: "world \<Rightarrow> strategy \<Rightarrow> bool" where
  "broker_consistent w s \<longleftrightarrow>
     (\<forall>p \<in> set (getActivePositions w). p < nextPosition s)
     \<and> (\<forall>p. Some p \<in> pendingEntry s \<longrightarrow> \<not> exitActive w p)"

fun consistent_run :: "strategy \<Rightarrow> (world \<times> event) list \<Rightarrow> bool" where
  "consistent_run s [] = True"
| "consistent_run s ((w, ev) # rest) =
     (broker_consistent w s \<and> consistent_run (step w ev s) rest)"

text \<open>
  The invariant behind the disjointness of \<open>pendingEntry\<close> from the two sets of pending
  cancellations: these two hold only positions created so far, and so do the short legs
  of the groups.
\<close>

definition tracker_inv :: "strategy \<Rightarrow> bool" where
  "tracker_inv s \<longleftrightarrow>
     (\<forall>x \<in> pendingSLToCost s \<union> pendingCancelExit s. \<exists>p. x = Some p \<and> p < nextPosition s)
     \<and> (\<forall>g p. Some g \<in> set (positions s) \<longrightarrow> ceShort g = Some p \<or> peShort g = Some p
            \<longrightarrow> p < nextPosition s)
     \<and> pendingEntry s \<inter> (pendingSLToCost s \<union> pendingCancelExit s) = {}"

definition is_callback :: "event \<Rightarrow> bool" where
  "is_callback ev = (case ev of
       EnterOk p \<Rightarrow> True | EnterCanceled p \<Rightarrow> True | ExitOk p \<Rightarrow> True | ExitCanceled p \<Rightarrow> True
     | _ \<Rightarrow> False)"

subsection \<open>The same event delivered twice\<close>















subsection \<open>A trading day\<close>

text \<open>
  The answers of a day on which the strategy starts late, at 15:22, and everything is
  available: the at-the-money strike is 100, every symbol has a last bar closing at
  100, every entry fills at 100. Of the positions of a straddle the first two are the
  hedges (bought), the last two the short legs: 0 and 1, then 2 and 3, for the first
  straddle. Only the answers an event asks for matter to it.
\<close>

definition quiet :: world where
  "quiet = \<lparr>atmStrike = Some 100, strikeDifference = 50, quantity = 25,
     getOptionSymbol = (\<lambda>k t. (if k = 100 then ''ATM'' else if k < 100 then ''LOW'' else ''HIGH'') @ [t]),
     getLastBar = (\<lambda>i. Some (Finite 100)),
     getInstrument = (\<lambda>p. if p mod 4 = 0 then ''HIGHc'' else if p mod 4 = 1 then ''LOWp''
                              else if p mod 4 = 2 then ''ATMc'' else ''ATMp''),
     entryIsBuy = (\<lambda>p. p mod 4 < 2),
     entryPrice = (\<lambda>p. Some (Finite 100)),
     exitActive = (\<lambda>p. False),
     exitFilled = (\<lambda>p. False),
     getActivePositions = [],
     getClosedPositions = [],
     isPendingOrdersCompleted = True,
     marketEndTime = hm 15 30,
     currentTime = hm 15 22\<rparr>"

text \<open>
  The same day once the four entries have filled and the stops of the short legs 2 and
  3 are live (\<open>holding\<close>); at the exit time (\<open>closing\<close>); and a little later, when the
  hedges have their exit orders and the stop of leg 2 has filled while the cancellation
  of the stop of leg 3 is still on its way (\<open>racing\<close>).
\<close>

definition holding :: world where
  "holding = quiet\<lparr>getActivePositions := [0, 1, 2, 3], exitActive := (\<lambda>p. p = 2 \<or> p = 3)\<rparr>"

definition closing :: world where
  "closing = holding\<lparr>currentTime := hm 15 24\<rparr>"

definition racing :: world where
  "racing = closing\<lparr>getActivePositions := [0, 1, 3],
     exitActive := (\<lambda>p. p = 0 \<or> p = 1 \<or> p = 3), exitFilled := (\<lambda>p. p = 2)\<rparr>"


text \<open>
  The first bar enters one straddle and its four entries fill (\<open>filled\<close>); a tick finds
  nothing pending and the phase becomes \<open>ENTERED\<close> (\<open>entered\<close>); at the exit time a
  tick closes all positions (\<open>unwinding\<close>); the bar of that minute enters a second
  straddle; then the exit of leg 2 is confirmed.
\<close>

definition morning :: "(world \<times> event) list" where
  "morning =
     [(quiet, ResampledBars), (quiet, EnterOk 0), (quiet, EnterOk 1), (quiet, EnterOk 2),
      (quiet, EnterOk 3)]"

definition filled :: strategy where
  "filled = run initial morning"

definition entered :: strategy where
  "entered = step holding Tick filled"

definition unwinding :: strategy where
  "unwinding = step closing Tick entered"

definition afternoon :: "(world \<times> event) list" where
  "afternoon = morning @ [(holding, Tick), (closing, Tick), (closing, ResampledBars), (racing, ExitOk 2)]"

text \<open>A day that starts without a strike, and a bar on which one symbol has no last bar.\<close>

definition nostrike :: world where
  "nostrike = quiet\<lparr>atmStrike := None\<rparr>"

definition nobar :: world where
  "nobar = quiet\<lparr>getLastBar := (\<lambda>i. if i = ''HIGHc'' then None else Some (Finite 100))\<rparr>"

section \<open>Rounding is monotone\<close>

lemma rne_bounds: "\<lfloor>q\<rfloor> \<le> rne q \<and> rne q \<le> \<lfloor>q\<rfloor> + 1"
  by (simp add: rne_def Let_def)

lemma rne_of_int: "rne (of_int n) = n"
  by (simp add: rne_def Let_def)

lemma rne_mono:
  assumes "q1 \<le> q2"
  shows "rne q1 \<le> rne q2"
proof (cases "\<lfloor>q1\<rfloor> = \<lfloor>q2\<rfloor>")
  case True
  with assms show ?thesis
    by (auto simp: rne_def Let_def)
next
  case False
  with assms have "\<lfloor>q1\<rfloor> < \<lfloor>q2\<rfloor>"
    by (simp add: floor_mono order.strict_iff_order)
  then have "rne q1 \<le> \<lfloor>q2\<rfloor>"
    using rne_bounds [of q1] by linarith
  then show ?thesis
    using rne_bounds [of q2] by linarith
qed

lemma ilog2_bounds_ge1:
  assumes "1 \<le> (x::rat)"
  shows "2 powi (bitlen \<lfloor>x\<rfloor> - 1) \<le> x \<and> x < 2 powi (bitlen \<lfloor>x\<rfloor>)"
proof -
  let ?n = "\<lfloor>x\<rfloor>"
  from assms have n: "0 < ?n" by simp
  from bitlen_bounds [OF n] have lo: "2 ^ nat (bitlen ?n - 1) \<le> ?n" and hi: "?n < 2 ^ nat (bitlen ?n)"
    by auto
  from n have b1: "1 \<le> bitlen ?n" by (auto simp: bitlen_alt_def)
  have "(2::rat) powi (bitlen ?n - 1) = of_int (2 ^ nat (bitlen ?n - 1))"
    using b1 by (simp add: power_int_def)
  also have "\<dots> \<le> of_int ?n" using lo by (simp only: of_int_le_iff)
  also have "\<dots> \<le> x" by simp
  finally have A: "2 powi (bitlen ?n - 1) \<le> x" .
  from hi have "?n + 1 \<le> 2 ^ nat (bitlen ?n)" by simp
  then have "(of_int (?n + 1) :: rat) \<le> of_int (2 ^ nat (bitlen ?n))" by (simp only: of_int_le_iff)
  moreover have "x < of_int (?n + 1)" by simp linarith
  ultimately have "x < of_int (2 ^ nat (bitlen ?n))" by linarith
  also have "\<dots> = 2 powi (bitlen ?n)" using b1 by (simp add: power_int_def)
  finally show ?thesis using A by simp
qed

lemma ilog2_bounds_lt1:
  assumes "0 < (x::rat)" "x < 1"
  shows "2 powi (- bitlen (\<lceil>1 / x\<rceil> - 1)) \<le> x \<and> x < 2 powi (- bitlen (\<lceil>1 / x\<rceil> - 1) + 1)"
proof -
  let ?c = "\<lceil>1 / x\<rceil>"
  let ?k = "bitlen (?c - 1)"
  from assms have y: "1 < 1 / x" by simp
  then have c2: "2 \<le> ?c" by (simp add: le_ceiling_iff)
  then have n: "0 < ?c - 1" by simp
  from bitlen_bounds [OF n] have lo: "2 ^ nat (?k - 1) \<le> ?c - 1" and hi: "?c - 1 < 2 ^ nat ?k"
    by auto
  from n have k1: "1 \<le> ?k" by (auto simp: bitlen_alt_def)
  from hi have "?c \<le> 2 ^ nat ?k" by simp
  then have "1 / x \<le> of_int (2 ^ nat ?k)" by (simp only: ceiling_le_iff)
  then have "1 / x \<le> 2 ^ nat ?k" by simp
  then have "1 \<le> 2 ^ nat ?k * x" using assms(1) by (simp add: pos_divide_le_eq)
  then have "1 / 2 ^ nat ?k \<le> x" by (simp add: pos_divide_le_eq mult.commute)
  moreover have "(2::rat) powi (- ?k) = 1 / 2 ^ nat ?k"
    using k1 by (simp add: power_int_def field_simps)
  ultimately have A: "2 powi (- ?k) \<le> x" by simp
  have "of_int (?c - 1) < 1 / x" using ceiling_correct [of "1 / x"] by linarith
  moreover have "(of_int (2 ^ nat (?k - 1)) :: rat) \<le> of_int (?c - 1)" using lo by (simp only: of_int_le_iff)
  ultimately have "2 ^ nat (?k - 1) < 1 / x" by simp
  then have "x * 2 ^ nat (?k - 1) < 1" using assms(1) by (simp add: pos_less_divide_eq mult.commute)
  then have "x < 1 / 2 ^ nat (?k - 1)" by (simp add: pos_less_divide_eq)
  moreover have "(2::rat) powi (- ?k + 1) = 1 / 2 ^ nat (?k - 1)"
    using k1 by (simp add: power_int_def field_simps)
  ultimately show ?thesis using A by simp
qed

lemma ilog2_bounds:
  assumes "0 < x"
  shows "2 powi (ilog2 x) \<le> x \<and> x < 2 powi (ilog2 x + 1)"
  using assms ilog2_bounds_ge1 [of x] ilog2_bounds_lt1 [of x]
  by (cases "1 \<le> x") (simp_all add: ilog2_def)

lemma rne_minus: "rne (- q) = - rne q"
proof (cases "q = of_int \<lfloor>q\<rfloor>")
  case True
  then obtain n where "q = of_int n" ..
  then have "- q = of_int (- n)" by simp
  then show ?thesis using \<open>q = of_int n\<close> by (simp only: rne_of_int)
next
  case False
  then have fl: "\<lfloor>- q\<rfloor> = - \<lfloor>q\<rfloor> - 1"
    by (simp add: floor_minus ceiling_altdef)
  show ?thesis
    unfolding rne_def Let_def fl by (auto simp: field_simps)
qed

lemma binary64_alt: "binary64 x = (if x = 0 then 0 else of_int (rne (x / 2 powi uexp x)) * 2 powi uexp x)"
  by (simp add: binary64_def Let_def)

lemma binary64_minus: "binary64 (- x) = - binary64 x"
  by (simp add: binary64_alt uexp_def rne_minus)

lemma binary64_nonneg:
  assumes "0 \<le> x" shows "0 \<le> binary64 x"
proof (cases "x = 0")
  case True then show ?thesis by (simp add: binary64_def)
next
  case False
  let ?u = "(2::rat) powi uexp x"
  have u: "0 < ?u" by simp
  with assms have "0 \<le> x / ?u" by simp
  then have "rne 0 \<le> rne (x / ?u)" by (rule rne_mono)
  then have "0 \<le> rne (x / ?u)" using rne_of_int [of 0] by simp
  with u False show ?thesis by (simp add: binary64_alt)
qed

lemma pos_upper:
  assumes "0 < x"
  shows "x < 2 powi (uexp x + 53)" and "binary64 x \<le> 2 powi (uexp x + 53)"
proof -
  let ?e = "uexp x"
  let ?u = "(2::rat) powi ?e"
  have u: "0 < ?u" by simp
  from assms have ax: "\<bar>x\<bar> = x" by simp
  have "ilog2 x + 1 \<le> ?e + 53" by (simp add: uexp_def ax)
  then have "(2::rat) powi (ilog2 x + 1) \<le> 2 powi (?e + 53)"
    by (intro power_int_increasing) simp_all
  with ilog2_bounds [OF assms] show A: "x < 2 powi (?e + 53)" by linarith
  have split: "(2::rat) powi (?e + 53) = 2 ^ 53 * ?u"
    by (simp add: power_int_add)
  from A have "x / ?u \<le> 2 ^ 53" using u by (simp add: split pos_divide_le_eq)
  then have "x / ?u \<le> of_int (2 ^ 53)" by simp
  then have "rne (x / ?u) \<le> rne (of_int (2 ^ 53))" by (rule rne_mono)
  then have "rne (x / ?u) \<le> 2 ^ 53" by (simp only: rne_of_int)
  then have "(of_int (rne (x / ?u)) :: rat) \<le> of_int (2 ^ 53)" by (simp only: of_int_le_iff)
  then have "of_int (rne (x / ?u)) * ?u \<le> 2 ^ 53 * ?u" using u by simp
  with assms show "binary64 x \<le> 2 powi (?e + 53)" by (simp add: binary64_alt split)
qed

lemma pos_lower:
  assumes "0 < x" "- 1022 \<le> ilog2 x"
  shows "2 powi (uexp x + 52) \<le> binary64 x"
proof -
  let ?e = "uexp x"
  let ?u = "(2::rat) powi ?e"
  have u: "0 < ?u" by simp
  from assms have ax: "\<bar>x\<bar> = x" by simp
  from assms(2) have e: "?e + 52 = ilog2 x" by (simp add: uexp_def ax)
  have split: "(2::rat) powi (?e + 52) = 2 ^ 52 * ?u"
    by (simp add: power_int_add)
  from ilog2_bounds [OF assms(1)] have "2 ^ 52 * ?u \<le> x" by (simp add: e [symmetric] split)
  then have "of_int (2 ^ 52) \<le> x / ?u" using u by (simp add: pos_le_divide_eq)
  then have "rne (of_int (2 ^ 52)) \<le> rne (x / ?u)" by (rule rne_mono)
  then have "2 ^ 52 \<le> rne (x / ?u)" by (simp only: rne_of_int)
  then have "(of_int (2 ^ 52) :: rat) \<le> of_int (rne (x / ?u))" by (simp only: of_int_le_iff)
  then have "2 ^ 52 * ?u \<le> of_int (rne (x / ?u)) * ?u" using u by simp
  with assms show ?thesis by (simp add: binary64_alt split)
qed

lemma binary64_mono_pos:
  assumes "0 < x" "x \<le> y"
  shows "binary64 x \<le> binary64 y"
proof -
  from assms have y: "0 < y" by simp
  from assms have ax: "\<bar>x\<bar> = x" and ay: "\<bar>y\<bar> = y" by simp_all
  have lt2: "(2::rat) powi ilog2 x < 2 powi (ilog2 y + 1)"
    using ilog2_bounds [OF assms(1)] ilog2_bounds [OF y] assms(2) by linarith
  have "ilog2 x < ilog2 y + 1"
  proof (rule ccontr)
    assume "\<not> ilog2 x < ilog2 y + 1"
    then have "ilog2 y + 1 \<le> ilog2 x" by simp
    then have "(2::rat) powi (ilog2 y + 1) \<le> 2 powi ilog2 x"
      by (intro power_int_increasing) simp_all
    with lt2 show False by simp
  qed
  then have le: "uexp x \<le> uexp y" by (simp add: uexp_def ax ay)
  show ?thesis
  proof (cases "uexp x = uexp y")
    case True
    let ?u = "(2::rat) powi uexp y"
    have u: "0 < ?u" by simp
    from assms(2) u have "x / ?u \<le> y / ?u" by (simp add: divide_right_mono)
    then have "rne (x / ?u) \<le> rne (y / ?u)" by (rule rne_mono)
    then have "(of_int (rne (x / ?u)) :: rat) * ?u \<le> of_int (rne (y / ?u)) * ?u"
      using u by simp
    with assms y True show ?thesis by (simp add: binary64_alt)
  next
    case False
    with le have lt: "uexp x < uexp y" by simp
    then have "- 1022 \<le> ilog2 y" by (simp add: uexp_def ax ay max_def split: if_splits)
    from pos_lower [OF y this] have "2 powi (uexp y + 52) \<le> binary64 y" .
    moreover from lt have "(2::rat) powi (uexp x + 53) \<le> 2 powi (uexp y + 52)"
      by (intro power_int_increasing) simp_all
    ultimately show ?thesis using pos_upper(2) [OF assms(1)] by linarith
  qed
qed

lemma binary64_mono:
  assumes "x \<le> y"
  shows "binary64 x \<le> binary64 y"
proof -
  consider "0 < x" | "x \<le> 0" "0 \<le> y" | "y < 0" by linarith
  then show ?thesis
  proof cases
    case 1
    then show ?thesis using assms by (rule binary64_mono_pos)
  next
    case 2
    then have "0 \<le> binary64 (- x)" and "0 \<le> binary64 y" by (simp_all add: binary64_nonneg)
    then show ?thesis by (simp add: binary64_minus)
  next
    case 3
    with assms have "0 < - y" and "- y \<le> - x" by simp_all
    then have "binary64 (- y) \<le> binary64 (- x)" by (rule binary64_mono_pos)
    then show ?thesis by (simp add: binary64_minus)
  qed
qed

section \<open>Rounding at given numbers\<close>

text \<open>
  A rounding at a given number is checked from its exponent \<open>e\<close> and its integer
  significand \<open>m\<close>: the number lies in \<open>[2 powi e, 2 powi (e + 1))\<close> and, scaled by
  \<open>2 powi (52 - e)\<close>, is nearer to \<open>m\<close> than to any other integer, or half way
  between \<open>m\<close> and a neighbour with \<open>m\<close> even.
\<close>

lemma ilog2_unique:
  assumes "0 < x" "2 powi e \<le> x" "x < 2 powi (e + 1)"
  shows "ilog2 x = e"
proof (rule ccontr)
  assume ne: "ilog2 x \<noteq> e"
  note b = ilog2_bounds [OF assms(1)]
  show False
  proof (cases "ilog2 x < e")
    case True
    then have "(2::rat) powi (ilog2 x + 1) \<le> 2 powi e"
      by (intro power_int_increasing) simp_all
    with b assms(2) show False by linarith
  next
    case False
    with ne have "e + 1 \<le> ilog2 x" by simp
    then have "(2::rat) powi (e + 1) \<le> 2 powi ilog2 x"
      by (intro power_int_increasing) simp_all
    with b assms(3) show False by linarith
  qed
qed

lemma rne_near:
  assumes "\<bar>q - of_int m\<bar> < 1 / 2"
  shows "rne q = m"
proof -
  from assms have lo: "of_int m - 1 / 2 < q" and hi: "q < of_int m + 1 / 2" by linarith+
  consider "\<lfloor>q\<rfloor> = m" | "\<lfloor>q\<rfloor> = m - 1"
  proof -
    have "of_int (m - 1) \<le> q" using lo by simp
    then have "m - 1 \<le> \<lfloor>q\<rfloor>" by (simp only: le_floor_iff)
    moreover have "q < of_int (m + 1)" using hi by simp
    then have "\<lfloor>q\<rfloor> < m + 1" by (simp only: floor_less_iff)
    ultimately show ?thesis using that by linarith
  qed
  then show ?thesis
  proof cases
    case 1
    then show ?thesis using hi by (simp add: rne_def Let_def)
  next
    case 2
    then show ?thesis using lo by (simp add: rne_def Let_def)
  qed
qed

lemma rne_cert:
  assumes "\<bar>q - of_int m\<bar> < 1 / 2 \<or> (\<bar>q - of_int m\<bar> = 1 / 2 \<and> even m)"
  shows "rne q = m"
proof -
  consider "\<bar>q - of_int m\<bar> < 1 / 2" | "q = of_int m + 1 / 2" "even m" | "q = of_int m - 1 / 2" "even m"
    using assms by (auto simp: abs_if split: if_splits)
  then show ?thesis
  proof cases
    case 1
    then show ?thesis by (rule rne_near)
  next
    case 2
    have "\<lfloor>q\<rfloor> = m" unfolding 2(1) by (simp add: floor_eq_iff)
    then show ?thesis using 2 by (simp add: rne_def Let_def)
  next
    case 3
    have "\<lfloor>q\<rfloor> = m - 1" unfolding 3(1) by (simp add: floor_eq_iff)
    then show ?thesis using 3 by (simp add: rne_def Let_def)
  qed
qed

lemma binary64_check:
  assumes "0 < x" "- 1022 \<le> e" "2 powi e \<le> x" "x < 2 * 2 powi e"
    and "\<bar>x * 2 powi (52 - e) - of_int m\<bar> < 1 / 2
         \<or> (\<bar>x * 2 powi (52 - e) - of_int m\<bar> = 1 / 2 \<and> even m)"
  shows "binary64 x = of_int m / 2 powi (52 - e)"
proof -
  have "(2::rat) powi (e + 1) = 2 * 2 powi e" by (simp add: power_int_add)
  with assms have "ilog2 x = e" by (intro ilog2_unique) simp_all
  with assms(1,2) have u: "uexp x = e - 52" by (simp add: uexp_def)
  have inv: "(2::rat) powi (e - 52) = 1 / 2 powi (52 - e)"
    using power_int_minus [of "2::rat" "52 - e"] by (simp add: field_simps)
  from assms(5) have "rne (x * 2 powi (52 - e)) = m" by (rule rne_cert)
  then show ?thesis using assms(1) by (simp add: binary64_alt u inv)
qed

lemma binary64_values:
  "binary64 (1) = 1"
  "binary64 (100) = 100"
  "binary64 (1 / 20) = 3602879701896397 / 72057594037927936"
  "binary64 (15) = 15"
  "binary64 (3 / 20) = 5404319552844595 / 36028797018963968"
  "binary64 (41433116571808563 / 36028797018963968) = 2589569785738035 / 2251799813685248"
  "binary64 (64739244643450875 / 562949953421312) = 8092405580431359 / 70368744177664"
  "binary64 (8283020434659816703 / 72057594037927936) = 8088887143222477 / 70368744177664"
  "binary64 (1501 / 100) = 8449878800853893 / 562949953421312"
  "binary64 (8449878800853893 / 56294995342131200) = 1351980608136623 / 9007199254740992"
  "binary64 (10359179862877615 / 9007199254740992) = 647448741429851 / 562949953421312"
  "binary64 (16186218535746275 / 140737488355328) = 4046554633936569 / 35184372088832"
  "binary64 (2071655828590428275 / 18014398509481984) = 115"
  "binary64 (751 / 50) = 4227754150194053 / 281474976710656"
  "binary64 (4227754150194053 / 28147497671065600) = 1352881328062097 / 9007199254740992"
  "binary64 (10360080582803089 / 9007199254740992) = 647505036425193 / 562949953421312"
  "binary64 (16187625910629825 / 140737488355328) = 252931654853591 / 2199023255552"
proof -
  show "binary64 (1) = 1"
    using binary64_check [of "1" "0" 4503599627370496] by simp
  show "binary64 (100) = 100"
    using binary64_check [of "100" "6" 7036874417766400] by simp
  show "binary64 (1 / 20) = 3602879701896397 / 72057594037927936"
    using binary64_check [of "1 / 20" "-5" 7205759403792794] by simp
  show "binary64 (15) = 15"
    using binary64_check [of "15" "3" 8444249301319680] by simp
  show "binary64 (3 / 20) = 5404319552844595 / 36028797018963968"
    using binary64_check [of "3 / 20" "-3" 5404319552844595] by simp
  show "binary64 (41433116571808563 / 36028797018963968) = 2589569785738035 / 2251799813685248"
    using binary64_check [of "41433116571808563 / 36028797018963968" "0" 5179139571476070] by simp
  show "binary64 (64739244643450875 / 562949953421312) = 8092405580431359 / 70368744177664"
    using binary64_check [of "64739244643450875 / 562949953421312" "6" 8092405580431359] by simp
  show "binary64 (8283020434659816703 / 72057594037927936) = 8088887143222477 / 70368744177664"
    using binary64_check [of "8283020434659816703 / 72057594037927936" "6" 8088887143222477] by simp
  show "binary64 (1501 / 100) = 8449878800853893 / 562949953421312"
    using binary64_check [of "1501 / 100" "3" 8449878800853893] by simp
  show "binary64 (8449878800853893 / 56294995342131200) = 1351980608136623 / 9007199254740992"
    using binary64_check [of "8449878800853893 / 56294995342131200" "-3" 5407922432546492] by simp
  show "binary64 (10359179862877615 / 9007199254740992) = 647448741429851 / 562949953421312"
    using binary64_check [of "10359179862877615 / 9007199254740992" "0" 5179589931438808] by simp
  show "binary64 (16186218535746275 / 140737488355328) = 4046554633936569 / 35184372088832"
    using binary64_check [of "16186218535746275 / 140737488355328" "6" 8093109267873138] by simp
  show "binary64 (2071655828590428275 / 18014398509481984) = 115"
    using binary64_check [of "2071655828590428275 / 18014398509481984" "6" 8092405580431360] by simp
  show "binary64 (751 / 50) = 4227754150194053 / 281474976710656"
    using binary64_check [of "751 / 50" "3" 8455508300388106] by simp
  show "binary64 (4227754150194053 / 28147497671065600) = 1352881328062097 / 9007199254740992"
    using binary64_check [of "4227754150194053 / 28147497671065600" "-3" 5411525312248388] by simp
  show "binary64 (10360080582803089 / 9007199254740992) = 647505036425193 / 562949953421312"
    using binary64_check [of "10360080582803089 / 9007199254740992" "0" 5180040291401544] by simp
  show "binary64 (16187625910629825 / 140737488355328) = 252931654853591 / 2199023255552"
    using binary64_check [of "16187625910629825 / 140737488355328" "6" 8093812955314912] by simp
qed

lemma floor_values:
  "\<lfloor>8286623314361711616 / 3602879701896397 :: rat\<rfloor> = 2299"
  "\<lfloor>8287343890302093312 / 3602879701896397 :: rat\<rfloor> = 2300"
  "\<lfloor>8288064466242469888 / 3602879701896397 :: rat\<rfloor> = 2300"
  by (simp_all add: floor_eq_iff)

lemma binary64_consts: "binary64 1 = 1" "binary64 100 = 100"
  by (simp_all add: binary64_values)

lemma tickSize_value: "tickSize = 3602879701896397 / 72057594037927936"
  by (simp add: tickSize_def binary64_values)

section \<open>The limit price\<close>

lemma fl_FiniteD: "fl x = Finite v \<Longrightarrow> v = binary64 x"
  by (simp add: fl_def Let_def split: if_splits)

lemma fadd_FiniteD: "fadd x y = Finite v \<Longrightarrow> \<exists>a b. x = Finite a \<and> y = Finite b \<and> v = binary64 (a + b)"
  by (cases x; cases y) (auto dest: fl_FiniteD)

lemma fsub_FiniteD: "fsub x y = Finite v \<Longrightarrow> \<exists>a b. x = Finite a \<and> y = Finite b \<and> v = binary64 (a - b)"
  by (cases x; cases y) (auto dest: fl_FiniteD)

lemma fmul_FiniteD: "fmul x y = Finite v \<Longrightarrow> \<exists>a b. x = Finite a \<and> y = Finite b \<and> v = binary64 (a * b)"
  by (cases x; cases y) (auto dest: fl_FiniteD)

lemma div100_FiniteD: "div100 x = Finite v \<Longrightarrow> \<exists>a. x = Finite a \<and> v = binary64 (a / 100)"
  by (cases x) (auto dest: fl_FiniteD)

lemma float_rem_nonneg:
  assumes "0 \<le> a" "0 < t"
  shows "float_rem (Finite a) t = Finite (a - t * of_int \<lfloor>a / t\<rfloor>)"
proof -
  from assms have q: "0 \<le> a / t" by simp
  have "of_int \<lfloor>a / t\<rfloor> * t \<le> (a / t) * t"
    using assms(2) by (intro mult_right_mono of_int_floor_le) simp
  then have "t * of_int \<lfloor>a / t\<rfloor> \<le> a" using assms(2) by (simp add: mult.commute)
  then have "\<not> fmod a t < 0" using q by (simp add: fmod_def)
  then show ?thesis using q assms(2) by (simp add: float_rem_def fmod_def Let_def)
qed

lemma getRoundedOffPriceByTickSize_nonneg:
  assumes "0 \<le> a" "0 < t"
  shows "getRoundedOffPriceByTickSize t (Finite a) = Inr (fl (t * of_int \<lfloor>a / t\<rfloor>))"
  using assms by (simp add: getRoundedOffPriceByTickSize_def py_mod_def float_rem_nonneg)

lemma limitPrice_Finite:
  assumes "limitPrice tick pct action (Finite close) = Inr (Finite v)"
    and "0 < tick" "0 \<le> close" "0 \<le> pct" "action \<noteq> BUY \<longrightarrow> pct \<le> 100"
  shows "0 \<le> markup (action = BUY) pct
    \<and> v = binary64 (tick * of_int \<lfloor>binary64 (close * markup (action = BUY) pct) / tick\<rfloor>)"
proof -
  let ?f = "if action = BUY then fadd else fsub"
  let ?b = "?f (fl 1) (div100 (fl pct))"
  from assms(1) have r: "getRoundedOffPriceByTickSize tick (fmul (Finite close) ?b) = Inr (Finite v)"
    by (simp add: limitPrice_def split: if_splits)
  then obtain m where "fsub (fmul (Finite close) ?b) m = Finite v"
    by (auto simp: getRoundedOffPriceByTickSize_def py_mod_def split: if_splits)
  then obtain c where c: "fmul (Finite close) ?b = Finite c"
    by (auto dest: fsub_FiniteD)
  then obtain b where b: "?b = Finite b" and cb: "c = binary64 (close * b)"
    by (auto dest: fmul_FiniteD)
  have a0: "0 \<le> binary64 (binary64 pct / 100)"
    using assms(4) by (intro binary64_nonneg divide_nonneg_nonneg) simp_all
  have bval: "b = markup (action = BUY) pct \<and> 0 \<le> b"
  proof (cases "action = BUY")
    case True
    with b obtain x y where "fl 1 = Finite x" "div100 (fl pct) = Finite y" "b = binary64 (x + y)"
      by (auto dest: fadd_FiniteD)
    then obtain z where "x = binary64 1" "fl pct = Finite z" "y = binary64 (z / 100)"
      by (auto dest: fl_FiniteD div100_FiniteD)
    then have "b = markup True pct"
      using \<open>b = binary64 (x + y)\<close> by (auto simp: markup_def binary64_consts dest: fl_FiniteD)
    moreover have "0 \<le> markup True pct"
      unfolding markup_def using a0 by (intro binary64_nonneg) simp
    ultimately show ?thesis using True by simp
  next
    case False
    with b obtain x y where "fl 1 = Finite x" "div100 (fl pct) = Finite y" "b = binary64 (x - y)"
      by (auto dest: fsub_FiniteD)
    then obtain z where "x = binary64 1" "fl pct = Finite z" "y = binary64 (z / 100)"
      by (auto dest: fl_FiniteD div100_FiniteD)
    then have "b = markup False pct"
      using \<open>b = binary64 (x - y)\<close> by (auto simp: markup_def binary64_consts dest: fl_FiniteD)
    moreover have "0 \<le> markup False pct"
    proof -
      from False assms(5) have "pct \<le> 100" by simp
      then have "binary64 pct \<le> binary64 100" by (rule binary64_mono)
      then have "binary64 pct / 100 \<le> 1" by (simp add: binary64_consts)
      then have "binary64 (binary64 pct / 100) \<le> binary64 1" by (rule binary64_mono)
      then have "0 \<le> 1 - binary64 (binary64 pct / 100)" by (simp add: binary64_consts)
      then show ?thesis unfolding markup_def by (simp add: binary64_nonneg)
    qed
    ultimately show ?thesis using False by simp
  qed
  then have "0 \<le> close * b" using assms(3) by simp
  then have c0: "0 \<le> c" unfolding cb by (rule binary64_nonneg)
  from r c have "fl (tick * of_int \<lfloor>c / tick\<rfloor>) = Finite v"
    using getRoundedOffPriceByTickSize_nonneg [OF c0 assms(2)] by simp
  then have "v = binary64 (tick * of_int \<lfloor>c / tick\<rfloor>)" by (rule fl_FiniteD)
  with bval cb show ?thesis by simp
qed

lemma markup_mono:
  assumes "p1 \<le> p2"
  shows "markup True p1 \<le> markup True p2" and "markup False p2 \<le> markup False p1"
proof -
  from assms have "binary64 p1 / 100 \<le> binary64 p2 / 100"
    by (simp add: binary64_mono divide_right_mono)
  then have a: "binary64 (binary64 p1 / 100) \<le> binary64 (binary64 p2 / 100)"
    by (rule binary64_mono)
  from a show "markup True p1 \<le> markup True p2"
    unfolding markup_def by (auto intro!: binary64_mono)
  from a show "markup False p2 \<le> markup False p1"
    unfolding markup_def by (auto intro!: binary64_mono)
qed

lemma floor_tick_mono:
  assumes "0 < tick" "c1 \<le> c2"
  shows "binary64 (tick * of_int \<lfloor>binary64 c1 / tick\<rfloor>) \<le> binary64 (tick * of_int \<lfloor>binary64 c2 / tick\<rfloor>)"
proof -
  from assms(2) have "binary64 c1 \<le> binary64 c2" by (rule binary64_mono)
  then have "binary64 c1 / tick \<le> binary64 c2 / tick" using assms(1) by (simp add: divide_right_mono)
  then have "\<lfloor>binary64 c1 / tick\<rfloor> \<le> \<lfloor>binary64 c2 / tick\<rfloor>" by (rule floor_mono)
  then have "(of_int \<lfloor>binary64 c1 / tick\<rfloor> :: rat) \<le> of_int \<lfloor>binary64 c2 / tick\<rfloor>" by simp
  then have "tick * of_int \<lfloor>binary64 c1 / tick\<rfloor> \<le> tick * of_int \<lfloor>binary64 c2 / tick\<rfloor>"
    using assms(1) by simp
  then show ?thesis by (rule binary64_mono)
qed

lemma limitPrice_values:
  "limitPrice tickSize 15 BUY (Finite 100) = Inr (Finite (8088887143222477 / 70368744177664))"
  "limitPrice tickSize (1501 / 100) BUY (Finite 100) = Inr (Finite 115)"
  "limitPrice tickSize (1502 / 100) BUY (Finite 100) = Inr (Finite 115)"
  by (simp_all add: limitPrice_def getRoundedOffPriceByTickSize_nonneg fl_def tickSize_value
        binary64_values floor_values)

lemma product_value:
  "fmul (Finite 100) (fadd (fl 1) (div100 (fl marketProtectionPercentage)))
     = Finite (8092405580431359 / 70368744177664)"
  by (simp add: marketProtectionPercentage_def fl_def binary64_values)

text \<open>
  Claim C8, at the scenario it names: reference price 100, protection 15, tick 0.05,
  buy. In floats \<^verbatim>\<open>100 * (1 + 15 / 100.0)\<close> is \<open>114.99999999999999\<close>, the float just
  below 115, so the limit price the code computes is the float \<open>114.95\<close>, one tick
  below the 115.00 of the claim.
\<close>

theorem limitPrice_scenario:
  "limitPrice tickSize marketProtectionPercentage BUY (Finite 100)
     = Inr (Finite (8088887143222477 / 70368744177664))
   \<and> fmul (Finite 100) (fadd (fl 1) (div100 (fl marketProtectionPercentage)))
     = Finite (8092405580431359 / 70368744177664)
   \<and> (8092405580431359 / 70368744177664 :: rat) < 115
   \<and> (8088887143222477 / 70368744177664 :: rat) < 115 - 1 / 25"
  using limitPrice_values(1) product_value by (simp add: marketProtectionPercentage_def)

text \<open>
  Claim C9 as stated fails: with reference price 100 and tick 0.05 the percentages
  15.01 and 15.02 give the same buy price, 115.0, so the larger percentage is not
  strictly worse.
\<close>

theorem limitPrice_not_strict:
  "(1501 / 100 :: rat) < 1502 / 100
   \<and> limitPrice tickSize (1501 / 100) BUY (Finite 100) = Inr (Finite 115)
   \<and> limitPrice tickSize (1502 / 100) BUY (Finite 100) = Inr (Finite 115)"
  using limitPrice_values(2,3) by simp

text \<open>
  Claim C9, amended: for a positive tick size and a positive reference price, a larger
  protection percentage never gives a better limit price: of two percentages
  \<open>0 \<le> p1 \<le> p2\<close> (for a sell \<open>p2 \<le> 100\<close>, so that the price stays non-negative)
  whose limit prices are both finite, the second price is not lower for a buy and not
  higher for a sell. The two prices may be equal.
\<close>

theorem limitPrice_never_better:
  assumes "0 < tick" "0 < close" "0 \<le> p1" "p1 \<le> p2" "action \<noteq> BUY \<longrightarrow> p2 \<le> 100"
    and "limitPrice tick p1 action (Finite close) = Inr (Finite v1)"
    and "limitPrice tick p2 action (Finite close) = Inr (Finite v2)"
  shows "if action = BUY then v1 \<le> v2 else v2 \<le> v1"
proof -
  from assms have c: "0 \<le> close" and p2: "0 \<le> p2" and p1': "action \<noteq> BUY \<longrightarrow> p1 \<le> 100"
    by auto
  note e1 = limitPrice_Finite [OF assms(6) assms(1) c assms(3) p1', THEN conjunct2]
  note e2 = limitPrice_Finite [OF assms(7) assms(1) c p2 assms(5), THEN conjunct2]
  show ?thesis
  proof (cases "action = BUY")
    case True
    have "close * markup True p1 \<le> close * markup True p2"
      using markup_mono(1) [OF assms(4)] c by (simp add: mult_left_mono)
    from floor_tick_mono [OF assms(1) this] show ?thesis using True e1 e2 by simp
  next
    case False
    have "close * markup False p2 \<le> close * markup False p1"
      using markup_mono(2) [OF assms(4)] c by (simp add: mult_left_mono)
    from floor_tick_mono [OF assms(1) this] show ?thesis using False e1 e2 by simp
  qed
qed

text \<open>
  For claim C9: the hypotheses of the theorem hold for the percentages 15 and 15.01 at
  reference price 100: the buy prices are 114.95 and 115.0.
\<close>

theorem limitPrice_never_better_witness:
  "limitPrice tickSize 15 BUY (Finite 100) = Inr (Finite (8088887143222477 / 70368744177664))
   \<and> limitPrice tickSize (1501 / 100) BUY (Finite 100) = Inr (Finite 115)
   \<and> (8088887143222477 / 70368744177664 :: rat) \<le> 115"
proof -
  have t: "0 < tickSize" by (simp add: tickSize_value)
  have "if BUY = BUY then (8088887143222477 / 70368744177664 :: rat) \<le> 115
        else 115 \<le> (8088887143222477 / 70368744177664 :: rat)"
    by (rule limitPrice_never_better [OF t _ _ _ _ limitPrice_values(1) limitPrice_values(2)]) simp_all
  then show ?thesis using limitPrice_values(1,2) by simp
qed

section \<open>The stop-loss lookup\<close>

lemma last_is_greatest:
  fixes xs :: "('a::linorder \<times> 'b) list"
  shows "sorted_wrt (<) (map fst xs) \<Longrightarrow> x \<in> set xs \<Longrightarrow> fst x \<le> fst (last xs)"
proof (induction xs)
  case Nil
  then show ?case by simp
next
  case (Cons y ys)
  show ?case
  proof (cases "ys = []")
    case True
    with Cons.prems show ?thesis by simp
  next
    case False
    then have l: "last ys \<in> set ys" by (rule last_in_set)
    from Cons.prems(1) have s: "sorted_wrt (<) (map fst ys)" and y: "\<forall>z \<in> set ys. fst y < fst z"
      by auto
    show ?thesis
    proof (cases "x = y")
      case True
      with y l False show ?thesis by (auto simp: less_imp_le)
    next
      case False
      with Cons.prems(2) have "x \<in> set ys" by simp
      from Cons.IH [OF s this] \<open>ys \<noteq> []\<close> show ?thesis by simp
    qed
  qed
qed

lemma sorted_keys_distinct:
  fixes xs :: "('a::linorder \<times> 'b) list"
  shows "sorted_wrt (<) (map fst xs) \<Longrightarrow> distinct (map fst xs)"
  by (simp add: strict_sorted_iff)

lemma stopLosses_sorted: "sorted_wrt (<) (map fst stopLosses)"
  by (simp add: stopLosses_def hm_def)

lemma stopLossPercentage_values:
  "stopLossPercentage stopLosses (hm 10 30) = 40"
  "stopLossPercentage stopLosses (10, 30, 0, 1) = 45"
  "stopLossPercentage stopLosses (hm 9 15) = 20"
  by (simp_all add: stopLossPercentage_def stopLosses_def hm_def)

text \<open>
  Claim C7: for every query time and every schedule, a list of items whose times
  increase strictly, the lookup returns the value of the greatest time that is
  strictly before the query time, and the default 20 when no time is. A time equal to
  the query time is not before it.
\<close>

theorem stopLossPercentage_greatest_key:
  assumes "sorted_wrt (<) (map fst schedule)"
  shows "stopLossPercentage schedule now =
     (let before = {k \<in> fst ` set schedule. k < now}
      in if before = {} then 20 else the (map_of schedule (Max before)))"
proof -
  let ?xs = "filter (\<lambda>(t, v). t < now) schedule"
  let ?B = "{k \<in> fst ` set schedule. k < now}"
  have B: "?B = fst ` set ?xs" by force
  have fin: "finite ?B" by simp
  show ?thesis
  proof (cases "?xs = []")
    case True
    then have "?B = {}" unfolding B by simp
    with True show ?thesis by (simp add: stopLossPercentage_def Let_def)
  next
    case False
    then have l: "last ?xs \<in> set ?xs" by (rule last_in_set)
    obtain k v where kv: "last ?xs = (k, v)" by (cases "last ?xs")
    from l kv have mem: "(k, v) \<in> set schedule" and k: "k < now" by auto
    have sx: "sorted_wrt (<) (map fst ?xs)"
      using assms by (simp add: sorted_wrt_map sorted_wrt_filter)
    have kB: "k \<in> ?B" using mem k by (auto simp: image_iff intro!: bexI [of _ "(k, v)"])
    have mx: "Max ?B = k"
    proof (rule Max_eqI [OF fin])
      show "k \<in> ?B" by (rule kB)
    next
      fix y assume "y \<in> ?B"
      then obtain x where "x \<in> set ?xs" "y = fst x" unfolding B by auto
      with last_is_greatest [OF sx] kv show "y \<le> k" by auto
    qed
    have mp: "map_of schedule k = Some v"
      using sorted_keys_distinct [OF assms] mem by simp
    have ne: "?B \<noteq> {}" using kB by blast
    have "last (map snd ?xs) = v" using False kv by (simp add: last_map)
    with False have lhs: "stopLossPercentage schedule now = v"
      by (simp add: stopLossPercentage_def Let_def)
    have rhs: "(let before = ?B in if before = {} then 20 else the (map_of schedule (Max before))) = v"
      unfolding Let_def mx mp using ne by (simp only: if_False option.sel)
    show ?thesis unfolding lhs rhs ..
  qed
qed

text \<open>
  For claim C7: the schedule of the file increases strictly. At 10:30 sharp the lookup gives the 40
  of 10:15 and not the 45 of 10:30, one microsecond later it gives 45, and at 9:15
  sharp it gives the default.
\<close>

theorem stopLossPercentage_greatest_key_witness:
  "sorted_wrt (<) (map fst stopLosses)
   \<and> stopLossPercentage stopLosses (hm 10 30) =
       (let before = {k \<in> fst ` set stopLosses. k < hm 10 30}
        in if before = {} then 20 else the (map_of stopLosses (Max before)))
   \<and> stopLossPercentage stopLosses (hm 10 30) = 40
   \<and> stopLossPercentage stopLosses (10, 30, 0, 1) = 45
   \<and> stopLossPercentage stopLosses (hm 9 15) = 20"
proof (intro conjI)
  show "sorted_wrt (<) (map fst stopLosses)" by (rule stopLosses_sorted)
  show "stopLossPercentage stopLosses (hm 10 30) =
       (let before = {k \<in> fst ` set stopLosses. k < hm 10 30}
        in if before = {} then 20 else the (map_of stopLosses (Max before)))"
    by (rule stopLossPercentage_greatest_key [OF stopLosses_sorted])
qed (simp_all only: stopLossPercentage_values)

section \<open>The strategy: basic facts\<close>

text \<open>The tick size of the file is not zero, so the pricer never raises.\<close>

lemma tickSize_nonzero: "tickSize \<noteq> 0"
  by (simp add: tickSize_value)

lemma limitPrice_tickSize:
  "limitPrice tickSize pct action close =
     Inr (let x = fmul close ((if action = BUY then fadd else fsub) (fl 1) (div100 (fl pct)))
          in fsub x (float_rem x tickSize))"
  by (simp add: limitPrice_def getRoundedOffPriceByTickSize_def py_mod_def tickSize_nonzero Let_def)

lemmas scenario =
  morning_def filled_def entered_def
  quiet_def holding_def closing_def nostrike_def initial_def
  onResampledBars_def enterPositions_def enterWithMarketProtection_def positions_add_def
  strategyLogic_def handlePlacingOrders_def closeAllPositions_def exitWithMarketProtection_def
  onEnterOk_def onEnterCanceled_def onExitOk_def onExitCanceled_def getStraddlePosition_def
  after_def maxEntries_def hedgesNStrikesAway_def exitTime_def hm_def limitPrice_tickSize
  Let_def insert_Diff_if

lemma straddlePositions_None:
  "None \<in> set ps \<Longrightarrow> straddlePositions ps position = Inl AttributeError"
proof (induction ps)
  case Nil
  then show ?case by simp
next
  case (Cons x ps)
  then show ?case by (cases x) auto
qed

lemma getStraddlePosition_None:
  "None \<in> set (positions s) \<Longrightarrow> getStraddlePosition s position = Inl AttributeError"
  by (simp add: getStraddlePosition_def straddlePositions_None)

lemma getStraddlePosition_positions:
  "positions s' = positions s \<Longrightarrow> getStraddlePosition s' position = getStraddlePosition s position"
  by (simp add: getStraddlePosition_def)

section \<open>What each call changes\<close>

lemma exitWithMarketProtection_result:
  "\<exists>rq. exitWithMarketProtection w p s = Inr (s\<lparr>requests := requests s @ rq\<rparr>)"
proof (cases "getLastBar w (getInstrument w p)")
  case None
  then have "exitWithMarketProtection w p s = Inr (s\<lparr>requests := requests s @ []\<rparr>)"
    by (simp add: exitWithMarketProtection_def)
  then show ?thesis ..
next
  case (Some close)
  then obtain price where "exitWithMarketProtection w p s = Inr (s\<lparr>requests := requests s @ [ExitLimit p price]\<rparr>)"
    by (simp add: exitWithMarketProtection_def limitPrice_tickSize)
  then show ?thesis ..
qed

lemma closeEach_result:
  "\<exists>s'. closeEach w ps s = Inr s'
     \<and> state s' = state s \<and> pendingEntry s' = pendingEntry s
     \<and> pendingSLToCost s' = pendingSLToCost s \<and> positions s' = positions s
     \<and> nextPosition s' = nextPosition s
     \<and> pendingCancelExit s' = pendingCancelExit s \<union> Some ` {p \<in> set ps. exitActive w p}
     \<and> pendingExit s' = pendingExit s \<union> Some ` set ps"
proof (induction ps arbitrary: s)
  case Nil
  then show ?case by simp
next
  case (Cons p ps)
  show ?case
  proof (cases "exitActive w p")
    case True
    let ?t = "s\<lparr>pendingCancelExit := insert (Some p) (pendingCancelExit s),
                pendingExit := insert (Some p) (pendingExit s),
                requests := requests s @ [CancelExit p]\<rparr>"
    from Cons.IH [of ?t] True show ?thesis by auto
  next
    case False
    let ?t = "s\<lparr>pendingExit := insert (Some p) (pendingExit s)\<rparr>"
    obtain rq where e: "exitWithMarketProtection w p ?t = Inr (?t\<lparr>requests := requests ?t @ rq\<rparr>)"
      using exitWithMarketProtection_result by blast
    from Cons.IH [of "?t\<lparr>requests := requests ?t @ rq\<rparr>"] False e show ?thesis by auto
  qed
qed

lemma closeAllPositions_result:
  "\<exists>s'. closeAllPositions w s = Inr s'
     \<and> state s' = SQUARING_OFF \<and> pendingEntry s' = pendingEntry s
     \<and> pendingSLToCost s' = pendingSLToCost s \<and> positions s' = positions s
     \<and> nextPosition s' = nextPosition s
     \<and> pendingCancelExit s' = pendingCancelExit s \<union> Some ` {p \<in> set (getActivePositions w). exitActive w p}
     \<and> pendingExit s' = pendingExit s \<union> Some ` set (getActivePositions w)"
  using closeEach_result [of w "getActivePositions w" "s\<lparr>state := SQUARING_OFF\<rparr>"]
  by (simp add: closeAllPositions_def)

lemma enterWithMarketProtection_result:
  "\<exists>r s'. enterWithMarketProtection w i a s = Inr (r, s')
     \<and> state s' = state s \<and> pendingEntry s' = pendingEntry s
     \<and> pendingSLToCost s' = pendingSLToCost s \<and> pendingCancelExit s' = pendingCancelExit s
     \<and> pendingExit s' = pendingExit s \<and> positions s' = positions s
     \<and> nextPosition s \<le> nextPosition s'
     \<and> (\<forall>p. r = Some p \<longrightarrow> nextPosition s \<le> p \<and> p < nextPosition s')"
  by (cases "getLastBar w i") (simp_all add: enterWithMarketProtection_def limitPrice_tickSize)

lemma enterPositions_None:
  "atmStrike w = None \<Longrightarrow> enterPositions w s = Inr (None, s)"
  by (simp add: enterPositions_def)

lemma enterPositions_result:
  assumes "atmStrike w = Some atm"
  shows "\<exists>g s'. enterPositions w s = Inr (Some g, s')
     \<and> state s' = PLACING_ORDERS
     \<and> pendingSLToCost s' = pendingSLToCost s \<and> pendingCancelExit s' = pendingCancelExit s
     \<and> pendingExit s' = pendingExit s \<and> positions s' = positions s
     \<and> nextPosition s \<le> nextPosition s'
     \<and> pendingEntry s' = pendingEntry s \<union> {ceHedge g, peHedge g, ceShort g, peShort g}
     \<and> (\<forall>p. Some p \<in> {ceHedge g, peHedge g, ceShort g, peShort g}
            \<longrightarrow> nextPosition s \<le> p \<and> p < nextPosition s')"
proof -
  let ?s0 = "s\<lparr>state := PLACING_ORDERS\<rparr>"
  let ?i1 = "getOptionSymbol w (atm + hedgesNStrikesAway * strikeDifference w) CHR ''c''"
  let ?i2 = "getOptionSymbol w (atm - hedgesNStrikesAway * strikeDifference w) CHR ''p''"
  let ?i3 = "getOptionSymbol w atm CHR ''c''"
  let ?i4 = "getOptionSymbol w atm CHR ''p''"
  obtain r1 s1 where 1: "enterWithMarketProtection w ?i1 BUY ?s0 = Inr (r1, s1)"
    "state s1 = state ?s0" "pendingEntry s1 = pendingEntry ?s0" "pendingSLToCost s1 = pendingSLToCost ?s0"
    "pendingCancelExit s1 = pendingCancelExit ?s0" "pendingExit s1 = pendingExit ?s0"
    "positions s1 = positions ?s0" "nextPosition ?s0 \<le> nextPosition s1"
    "\<forall>p. r1 = Some p \<longrightarrow> nextPosition ?s0 \<le> p \<and> p < nextPosition s1"
    using enterWithMarketProtection_result [of w ?i1 BUY ?s0] by blast
  obtain r2 s2 where 2: "enterWithMarketProtection w ?i2 BUY s1 = Inr (r2, s2)"
    "state s2 = state s1" "pendingEntry s2 = pendingEntry s1" "pendingSLToCost s2 = pendingSLToCost s1"
    "pendingCancelExit s2 = pendingCancelExit s1" "pendingExit s2 = pendingExit s1"
    "positions s2 = positions s1" "nextPosition s1 \<le> nextPosition s2"
    "\<forall>p. r2 = Some p \<longrightarrow> nextPosition s1 \<le> p \<and> p < nextPosition s2"
    using enterWithMarketProtection_result [of w ?i2 BUY s1] by blast
  obtain r3 s3 where 3: "enterWithMarketProtection w ?i3 SELL s2 = Inr (r3, s3)"
    "state s3 = state s2" "pendingEntry s3 = pendingEntry s2" "pendingSLToCost s3 = pendingSLToCost s2"
    "pendingCancelExit s3 = pendingCancelExit s2" "pendingExit s3 = pendingExit s2"
    "positions s3 = positions s2" "nextPosition s2 \<le> nextPosition s3"
    "\<forall>p. r3 = Some p \<longrightarrow> nextPosition s2 \<le> p \<and> p < nextPosition s3"
    using enterWithMarketProtection_result [of w ?i3 SELL s2] by blast
  obtain r4 s4 where 4: "enterWithMarketProtection w ?i4 SELL s3 = Inr (r4, s4)"
    "state s4 = state s3" "pendingEntry s4 = pendingEntry s3" "pendingSLToCost s4 = pendingSLToCost s3"
    "pendingCancelExit s4 = pendingCancelExit s3" "pendingExit s4 = pendingExit s3"
    "positions s4 = positions s3" "nextPosition s3 \<le> nextPosition s4"
    "\<forall>p. r4 = Some p \<longrightarrow> nextPosition s3 \<le> p \<and> p < nextPosition s4"
    using enterWithMarketProtection_result [of w ?i4 SELL s3] by blast
  let ?g = "\<lparr>ceHedge = r1, peHedge = r2, ceShort = r3, peShort = r4, strike = atm\<rparr>"
  let ?s' = "s4\<lparr>pendingEntry := insert r4 (insert r3 (insert r2 (insert r1 (pendingEntry s4))))\<rparr>"
  have e: "enterPositions w s = Inr (Some ?g, ?s')"
    using assms 1(1) 2(1) 3(1) 4(1) by (simp add: enterPositions_def Let_def)
  have b: "\<forall>p. Some p \<in> {r1, r2, r3, r4} \<longrightarrow> nextPosition s \<le> p \<and> p < nextPosition s4"
    using 1(8,9) 2(8,9) 3(8,9) 4(8,9) by auto
  have "state ?s' = PLACING_ORDERS" using 1(2) 2(2) 3(2) 4(2) by simp
  moreover have "pendingSLToCost ?s' = pendingSLToCost s" using 1(4) 2(4) 3(4) 4(4) by simp
  moreover have "pendingCancelExit ?s' = pendingCancelExit s" using 1(5) 2(5) 3(5) 4(5) by simp
  moreover have "pendingExit ?s' = pendingExit s" using 1(6) 2(6) 3(6) 4(6) by simp
  moreover have "positions ?s' = positions s" using 1(7) 2(7) 3(7) 4(7) by simp
  moreover have "nextPosition s \<le> nextPosition ?s'" using 1(8) 2(8) 3(8) 4(8) by simp
  moreover have "pendingEntry ?s' = pendingEntry s \<union> {ceHedge ?g, peHedge ?g, ceShort ?g, peShort ?g}"
    using 1(3) 2(3) 3(3) 4(3) by auto
  moreover have "\<forall>p. Some p \<in> {ceHedge ?g, peHedge ?g, ceShort ?g, peShort ?g}
            \<longrightarrow> nextPosition s \<le> p \<and> p < nextPosition ?s'"
    using b by simp
  ultimately show ?thesis using e by blast
qed

lemma straddlePositions_found:
  "straddlePositions ps position = Inr found \<Longrightarrow> g \<in> set found \<Longrightarrow>
     Some g \<in> set ps \<and> (ceShort g = Some position \<or> peShort g = Some position)"
proof (induction ps arbitrary: found)
  case Nil
  then show ?case by simp
next
  case (Cons x ps)
  show ?case
  proof (cases x)
    case None
    with Cons.prems show ?thesis by simp
  next
    case (Some h)
    with Cons.prems obtain rest where r: "straddlePositions ps position = Inr rest"
      by (auto split: sum.splits)
    show ?thesis
    proof (cases "g \<in> set rest")
      case True
      with Cons.IH [OF r] show ?thesis by simp
    next
      case False
      with Cons.prems Some r have "g = h" "Some position = ceShort h \<or> Some position = peShort h"
        by (auto split: if_splits)
      then show ?thesis using Some by auto
    qed
  qed
qed

lemma getStraddlePosition_found:
  assumes "getStraddlePosition s position = Inr (Some g)"
  shows "Some g \<in> set (positions s) \<and> (ceShort g = Some position \<or> peShort g = Some position)"
proof -
  from assms obtain rest where "straddlePositions (positions s) position = Inr (g # rest)"
    by (auto simp: getStraddlePosition_def split: sum.splits list.splits)
  from straddlePositions_found [OF this, of g] show ?thesis by simp
qed

lemma onEnterOk_fields:
  "state (after (onEnterOk w p s)) = state s
   \<and> pendingEntry (after (onEnterOk w p s)) = pendingEntry s - {Some p}
   \<and> pendingSLToCost (after (onEnterOk w p s)) = pendingSLToCost s
   \<and> pendingCancelExit (after (onEnterOk w p s)) = pendingCancelExit s
   \<and> pendingExit (after (onEnterOk w p s)) = pendingExit s
   \<and> positions (after (onEnterOk w p s)) = positions s
   \<and> nextPosition (after (onEnterOk w p s)) = nextPosition s"
  by (simp add: onEnterOk_def Let_def after_def split: sum.splits option.splits)

lemma onEnterCanceled_fields:
  "state (after (onEnterCanceled w p s)) = state s
   \<and> pendingEntry (after (onEnterCanceled w p s)) = pendingEntry s - {Some p}
   \<and> pendingSLToCost (after (onEnterCanceled w p s)) = pendingSLToCost s
   \<and> pendingCancelExit (after (onEnterCanceled w p s)) = pendingCancelExit s
   \<and> pendingExit (after (onEnterCanceled w p s)) = pendingExit s
   \<and> positions (after (onEnterCanceled w p s)) = positions s
   \<and> nextPosition (after (onEnterCanceled w p s)) = nextPosition s"
  by (simp add: onEnterCanceled_def after_def)

lemma onExitCanceled_fields:
  "(state (after (onExitCanceled w p s)) = state s
      \<or> state s \<noteq> SQUARING_OFF \<and> state (after (onExitCanceled w p s)) = PLACING_ORDERS)
   \<and> pendingEntry (after (onExitCanceled w p s)) = pendingEntry s
   \<and> pendingSLToCost (after (onExitCanceled w p s)) \<subseteq> pendingSLToCost s
   \<and> pendingCancelExit (after (onExitCanceled w p s)) = pendingCancelExit s - {Some p}
   \<and> pendingExit (after (onExitCanceled w p s)) = pendingExit s
   \<and> positions (after (onExitCanceled w p s)) = positions s
   \<and> nextPosition (after (onExitCanceled w p s)) = nextPosition s"
proof -
  let ?s1 = "s\<lparr>pendingCancelExit := pendingCancelExit s - {Some p}\<rparr>"
  let ?s2 = "?s1\<lparr>state := (if state ?s1 \<noteq> SQUARING_OFF then PLACING_ORDERS else state ?s1)\<rparr>"
  obtain rq where e: "exitWithMarketProtection w p ?s2 = Inr (?s2\<lparr>requests := requests ?s2 @ rq\<rparr>)"
    using exitWithMarketProtection_result by blast
  show ?thesis
    using e by (auto simp: onExitCanceled_def Let_def after_def split: option.splits)
qed

lemma onExitOk_fields:
  "(state (after (onExitOk w p s)) = state s
      \<or> state s \<noteq> SQUARING_OFF \<and> state (after (onExitOk w p s)) = PLACING_ORDERS)
   \<and> pendingEntry (after (onExitOk w p s)) = pendingEntry s
   \<and> (pendingSLToCost (after (onExitOk w p s)) = pendingSLToCost s
        \<or> (\<exists>g other. Some g \<in> set (positions s) \<and> (ceShort g = Some other \<or> peShort g = Some other)
              \<and> exitActive w other
              \<and> pendingSLToCost (after (onExitOk w p s)) = insert (Some other) (pendingSLToCost s)))
   \<and> pendingCancelExit (after (onExitOk w p s)) = pendingCancelExit s
   \<and> pendingExit (after (onExitOk w p s)) = pendingExit s - {Some p}
   \<and> positions (after (onExitOk w p s)) = positions s
   \<and> nextPosition (after (onExitOk w p s)) = nextPosition s"
proof -
  let ?s1 = "s\<lparr>pendingExit := pendingExit s - {Some p}\<rparr>"
  have gs: "getStraddlePosition ?s1 p = getStraddlePosition s p"
    by (rule getStraddlePosition_positions) simp
  show ?thesis
  proof (cases "getStraddlePosition s p")
    case (Inl e)
    with gs show ?thesis by (simp add: onExitOk_def Let_def after_def)
  next
    case (Inr r)
    show ?thesis
    proof (cases r)
      case None
      with Inr gs show ?thesis by (simp add: onExitOk_def Let_def after_def)
    next
      case (Some g)
      with Inr have f: "Some g \<in> set (positions s)" "ceShort g = Some p \<or> peShort g = Some p"
        using getStraddlePosition_found [of s p g] by simp_all
      show ?thesis
      proof (cases "if Some p \<noteq> ceShort g then ceShort g else peShort g")
        case None
        with Inr Some gs show ?thesis by (simp add: onExitOk_def Let_def after_def)
      next
        case (Some other)
        then have "ceShort g = Some other \<or> peShort g = Some other"
          by (auto split: if_splits)
        with f(1) Inr \<open>r = Some g\<close> gs Some show ?thesis
          by (auto simp: onExitOk_def Let_def after_def)
      qed
    qed
  qed
qed

lemma handlePlacingOrders_fields:
  "pendingEntry (handlePlacingOrders w s) = pendingEntry s
   \<and> pendingSLToCost (handlePlacingOrders w s) = pendingSLToCost s
   \<and> pendingCancelExit (handlePlacingOrders w s) = pendingCancelExit s
   \<and> pendingExit (handlePlacingOrders w s) = pendingExit s
   \<and> positions (handlePlacingOrders w s) = positions s
   \<and> nextPosition (handlePlacingOrders w s) = nextPosition s"
  by (simp add: handlePlacingOrders_def)

section \<open>The exit-confirmed handler\<close>

text \<open>
  Where \<^verbatim>\<open>getStraddlePosition\<close> finds the position as a short leg of a group and the
  paired short leg is a position, \<^verbatim>\<open>onExitOk\<close> does the following. The position leaves
  \<open>pendingExit\<close>; in phase \<open>SQUARING_OFF\<close> nothing else happens; otherwise, if the exit
  of the paired leg has filled, nothing else happens; otherwise, if the exit of the
  paired leg is live, its cancellation is requested, the paired leg joins
  \<open>pendingSLToCost\<close> and the phase becomes \<open>PLACING_ORDERS\<close>.
\<close>

lemma onExitOk_found:
  assumes "getStraddlePosition s position = Inr (Some straddlePosition)"
    and "(if Some position \<noteq> ceShort straddlePosition
          then ceShort straddlePosition else peShort straddlePosition) = Some otherPosition"
  shows "onExitOk w position s =
     Inr (if state s = SQUARING_OFF then s\<lparr>pendingExit := pendingExit s - {Some position}\<rparr>
          else if exitFilled w otherPosition then s\<lparr>pendingExit := pendingExit s - {Some position}\<rparr>
          else if exitActive w otherPosition
          then s\<lparr>pendingExit := pendingExit s - {Some position},
                 state := PLACING_ORDERS,
                 pendingSLToCost := insert (Some otherPosition) (pendingSLToCost s),
                 requests := requests s @ [CancelExit otherPosition]\<rparr>
          else s\<lparr>pendingExit := pendingExit s - {Some position}\<rparr>)"
proof -
  let ?s1 = "s\<lparr>pendingExit := pendingExit s - {Some position}\<rparr>"
  have "getStraddlePosition ?s1 position = Inr (Some straddlePosition)"
    using assms(1) getStraddlePosition_positions [of ?s1 s position] by simp
  with assms(2) show ?thesis
    by (simp add: onExitOk_def Let_def)
qed

lemma entered_eval:
  "state entered = ENTERED"
  "pendingSLToCost entered = {}"
  "pendingExit entered = {}"
  "positions entered
     = [Some \<lparr>ceHedge = Some 0, peHedge = Some 1, ceShort = Some 2, peShort = Some 3, strike = 100\<rparr>]"
  "length (requests entered) = 6"
  by (simp_all add: scenario)

text \<open>
  Claim C6 fails on the code. On the trading day above the four entries have filled,
  the phase is \<open>ENTERED\<close> and the stops of the short legs 2 and 3 are live. When the exit
  of leg 2 is confirmed now, the handler does what the claim says: it requests the
  cancellation of the stop of leg 3, adds leg 3 to \<open>pendingSLToCost\<close> and sets the phase
  to \<open>PLACING_ORDERS\<close>. When a resampled bar without a strike comes first, it leaves
  the phase and the pending sets alone and adds \<^verbatim>\<open>None\<close> to \<^verbatim>\<open>self.positions\<close>; the same
  event with the same answers of the broker then raises \<^verbatim>\<open>AttributeError\<close> in the lookup
  of the group: no cancellation is requested, \<open>pendingSLToCost\<close> stays empty and the
  phase stays \<open>ENTERED\<close>, while the stop of leg 3 is still live.
\<close>

theorem onExitOk_raises:
  "exitActive holding 3 \<and> \<not> exitFilled holding 3
   \<and> state entered = ENTERED
   \<and> onExitOk holding 2 entered =
       Inr (entered\<lparr>state := PLACING_ORDERS, pendingSLToCost := {Some 3},
                    requests := requests entered @ [CancelExit 3]\<rparr>)
   \<and> step (holding\<lparr>atmStrike := None\<rparr>) ResampledBars entered
       = entered\<lparr>positions := positions entered @ [None]\<rparr>
   \<and> onExitOk holding 2 (entered\<lparr>positions := positions entered @ [None]\<rparr>)
       = Inl (AttributeError, entered\<lparr>positions := positions entered @ [None]\<rparr>)"
proof -
  have a: "exitActive holding 3 \<and> \<not> exitFilled holding 3"
    by (simp add: holding_def quiet_def)
  have b: "onExitOk holding 2 entered =
       Inr (entered\<lparr>state := PLACING_ORDERS, pendingSLToCost := {Some 3},
                    requests := requests entered @ [CancelExit 3]\<rparr>)"
    by (simp add: scenario)
  have c: "step (holding\<lparr>atmStrike := None\<rparr>) ResampledBars entered
       = entered\<lparr>positions := positions entered @ [None]\<rparr>"
    by (simp add: scenario)
  have d: "onExitOk holding 2 (entered\<lparr>positions := positions entered @ [None]\<rparr>)
       = Inl (AttributeError, entered\<lparr>positions := positions entered @ [None]\<rparr>)"
    by (simp add: scenario)
  from a b c d entered_eval(1) show ?thesis by simp
qed
section \<open>The registry of straddle positions\<close>

lemma onResampledBars_full:
  "length (positions s) = maxEntries \<Longrightarrow> onResampledBars w s = s"
  by (simp add: onResampledBars_def)

lemma onResampledBars_None:
  "atmStrike w = None \<Longrightarrow> length (positions s) \<noteq> maxEntries \<Longrightarrow>
     onResampledBars w s = s\<lparr>positions := positions_add None (positions s)\<rparr>"
  by (simp add: onResampledBars_def enterPositions_None)

lemma onResampledBars_Some:
  assumes "atmStrike w = Some atm" "length (positions s) \<noteq> maxEntries"
  shows "\<exists>g s'. enterPositions w s = Inr (Some g, s')
     \<and> onResampledBars w s = s'\<lparr>positions := positions s @ [Some g]\<rparr>"
proof -
  from enterPositions_result [OF assms(1), of s] obtain g s'
    where "enterPositions w s = Inr (Some g, s')" "positions s' = positions s" by blast
  with assms(2) show ?thesis by (simp add: onResampledBars_def positions_add_def)
qed

lemma positions_step_other:
  assumes "ev \<noteq> ResampledBars" "ev = Tick \<longrightarrow> currentTime w < marketEndTime w"
  shows "positions (step w ev s) = positions s"
proof (cases ev)
  case ResampledBars
  with assms show ?thesis by simp
next
  case Tick
  with assms have t: "\<not> marketEndTime w \<le> currentTime w" by simp
  let ?s1 = "if state s = PLACING_ORDERS \<or> state s = SQUARING_OFF then handlePlacingOrders w s else s"
  have p1: "positions ?s1 = positions s" by (simp add: handlePlacingOrders_fields)
  obtain s' where "closeAllPositions w ?s1 = Inr s'" "positions s' = positions ?s1"
    using closeAllPositions_result [of w ?s1] by blast
  with p1 t Tick show ?thesis by (simp add: strategyLogic_def Let_def)
next
  case CloseAllPositions
  obtain s' where "closeAllPositions w s = Inr s'" "positions s' = positions s"
    using closeAllPositions_result [of w s] by blast
  with CloseAllPositions show ?thesis by (simp add: after_def)
next
  case (EnterOk p)
  then show ?thesis by (simp add: onEnterOk_fields)
next
  case (EnterCanceled p)
  then show ?thesis by (simp add: onEnterCanceled_fields)
next
  case (ExitOk p)
  then show ?thesis by (simp add: onExitOk_fields)
next
  case (ExitCanceled p)
  then show ?thesis by (simp add: onExitCanceled_fields)
qed

lemma positions_add_keeps: "x \<in> set ps \<Longrightarrow> x \<in> set (positions_add y ps)"
  by (cases y) (simp_all add: positions_add_def)

lemma None_stays_step:
  assumes "None \<in> set (positions s)" "ev = Tick \<longrightarrow> currentTime w < marketEndTime w"
  shows "None \<in> set (positions (step w ev s))"
proof (cases "ev = ResampledBars")
  case False
  with assms show ?thesis by (simp add: positions_step_other)
next
  case True
  show ?thesis
  proof (cases "length (positions s) = maxEntries")
    case True
    with \<open>ev = ResampledBars\<close> assms(1) show ?thesis by (simp add: onResampledBars_full)
  next
    case False
    show ?thesis
    proof (cases "atmStrike w")
      case None
      with False \<open>ev = ResampledBars\<close> assms(1) show ?thesis
        by (simp add: onResampledBars_None positions_add_keeps)
    next
      case (Some atm)
      from onResampledBars_Some [OF Some False] \<open>ev = ResampledBars\<close> assms(1) show ?thesis
        by auto
    qed
  qed
qed

lemma None_stays:
  "within_session tr \<Longrightarrow> None \<in> set (positions s) \<Longrightarrow> None \<in> set (positions (run s tr))"
proof (induction tr arbitrary: s)
  case Nil
  then show ?case by simp
next
  case (Cons x tr)
  obtain w ev where x: "x = (w, ev)" by (cases x)
  with Cons.prems have "None \<in> set (positions (step w ev s))" "within_session tr"
    by (simp_all add: None_stays_step)
  with Cons.IH x show ?case by simp
qed

text \<open>
  Claim C10: when a bar triggers an entry while no at-the-money strike is available,
  \<^verbatim>\<open>enterPositions\<close> returns \<^verbatim>\<open>None\<close> and \<^verbatim>\<open>onResampledBars\<close> adds it to
  \<^verbatim>\<open>self.positions\<close>. It stays there for the rest of the session, whatever happens, and
  in every state \<open>s'\<close> reached from then on \<^verbatim>\<open>getStraddlePosition\<close> raises
  \<^verbatim>\<open>AttributeError\<close> for every position, and so do the entry-confirmed handler and,
  outside of \<open>SQUARING_OFF\<close> (where it returns before the lookup), the exit-confirmed
  handler, each after it has removed the position from its pending set.
\<close>

theorem None_in_positions:
  assumes "atmStrike w = None" "length (positions s) \<noteq> maxEntries"
    and "within_session tr" "s' = run (onResampledBars w s) tr"
  shows "enterPositions w s = Inr (None, s)
    \<and> None \<in> set (positions (onResampledBars w s))
    \<and> None \<in> set (positions s')
    \<and> getStraddlePosition s' position = Inl AttributeError
    \<and> onEnterOk w' position s' = Inl (AttributeError, s'\<lparr>pendingEntry := pendingEntry s' - {Some position}\<rparr>)
    \<and> (state s' \<noteq> SQUARING_OFF \<longrightarrow>
         onExitOk w' position s' = Inl (AttributeError, s'\<lparr>pendingExit := pendingExit s' - {Some position}\<rparr>))"
proof -
  have a: "None \<in> set (positions (onResampledBars w s))"
    using assms(1,2) by (simp add: onResampledBars_None positions_add_def)
  with assms(3,4) have b: "None \<in> set (positions s')" by (simp add: None_stays)
  have c: "\<And>t. positions t = positions s' \<Longrightarrow> getStraddlePosition t position = Inl AttributeError"
    using b by (simp add: getStraddlePosition_None)
  show ?thesis
    using assms(1) a b c by (simp add: enterPositions_None onEnterOk_def onExitOk_def Let_def)
qed

text \<open>
  For claim C10, a day that starts without a strike: the first bar adds \<^verbatim>\<open>None\<close>, the second enters
  a straddle, and the confirmation of the entry of its short leg 2 raises.
\<close>

theorem None_in_positions_witness:
  "atmStrike nostrike = None \<and> length (positions initial) \<noteq> maxEntries
   \<and> within_session [(quiet, ResampledBars)]
   \<and> positions (run (onResampledBars nostrike initial) [(quiet, ResampledBars)])
       = [None, Some \<lparr>ceHedge = Some 0, peHedge = Some 1, ceShort = Some 2, peShort = Some 3, strike = 100\<rparr>]
   \<and> getStraddlePosition (run (onResampledBars nostrike initial) [(quiet, ResampledBars)]) 2 = Inl AttributeError
   \<and> onEnterOk quiet 2 (run (onResampledBars nostrike initial) [(quiet, ResampledBars)])
       = Inl (AttributeError,
              (run (onResampledBars nostrike initial) [(quiet, ResampledBars)])
                \<lparr>pendingEntry := pendingEntry (run (onResampledBars nostrike initial) [(quiet, ResampledBars)]) - {Some 2}\<rparr>)"
proof -
  have a: "atmStrike nostrike = None" by (simp add: nostrike_def quiet_def)
  have b: "length (positions initial) \<noteq> maxEntries" by (simp add: initial_def maxEntries_def)
  have c: "within_session [(quiet, ResampledBars)]" by simp
  have d: "positions (run (onResampledBars nostrike initial) [(quiet, ResampledBars)])
       = [None, Some \<lparr>ceHedge = Some 0, peHedge = Some 1, ceShort = Some 2, peShort = Some 3, strike = 100\<rparr>]"
    by (simp add: scenario)
  from None_in_positions [OF a b c refl, of 2 quiet] a b c d show ?thesis by blast
qed

section \<open>The number of entries\<close>

lemma positions_add_length:
  "length ps \<le> length (positions_add x ps) \<and> length (positions_add x ps) \<le> length ps + 1"
  by (cases x) (simp_all add: positions_add_def)

lemma entries_step:
  assumes "ev = Tick \<longrightarrow> currentTime w < marketEndTime w" "length (positions s) \<le> maxEntries"
  shows "length (positions s)
       + length (filter (\<lambda>w. atmStrike w \<noteq> None)
           (if ev = ResampledBars \<and> length (positions s) \<noteq> maxEntries then [w] else []))
       \<le> length (positions (step w ev s))
     \<and> length (positions (step w ev s)) \<le> maxEntries"
proof (cases "ev = ResampledBars")
  case False
  with assms show ?thesis by (simp add: positions_step_other)
next
  case bars: True
  show ?thesis
  proof (cases "length (positions s) = maxEntries")
    case True
    with bars show ?thesis by (simp add: onResampledBars_full)
  next
    case False
    with assms(2) have lt: "length (positions s) < maxEntries" by simp
    show ?thesis
    proof (cases "atmStrike w")
      case None
      with False bars lt positions_add_length [of "positions s" None] show ?thesis
        by (simp add: onResampledBars_None)
    next
      case (Some atm)
      from onResampledBars_Some [OF Some False] bars lt Some False show ?thesis
        by auto
    qed
  qed
qed

lemma entries_run:
  "within_session tr \<Longrightarrow> length (positions s) \<le> maxEntries \<Longrightarrow>
     length (positions s) + length (filter (\<lambda>w. atmStrike w \<noteq> None) (enterPositionsCalls s tr))
       \<le> length (positions (run s tr))
     \<and> length (positions (run s tr)) \<le> maxEntries"
proof (induction tr arbitrary: s)
  case Nil
  then show ?case by simp
next
  case (Cons x tr)
  obtain w ev where x: "x = (w, ev)" by (cases x)
  with Cons.prems have t: "ev = Tick \<longrightarrow> currentTime w < marketEndTime w" and ws: "within_session tr"
    by simp_all
  note st = entries_step [OF t Cons.prems(2)]
  from st have "length (positions (step w ev s)) \<le> maxEntries" by simp
  from Cons.IH [OF ws this] st x show ?case by simp
qed

text \<open>
  Claim C5 as stated fails: the guard of \<^verbatim>\<open>onResampledBars\<close> counts the elements of
  \<^verbatim>\<open>self.positions\<close>, not the calls. While no strike is available every call returns
  \<^verbatim>\<open>None\<close>, the set holds the one element \<^verbatim>\<open>None\<close>, and \<^verbatim>\<open>enterPositions\<close> is
  called on every bar: here four times, with \<open>maxEntries\<close> three.
\<close>

theorem enterPositions_called_again:
  "enterPositionsCalls initial
      [(nostrike, ResampledBars), (nostrike, ResampledBars), (nostrike, ResampledBars), (nostrike, ResampledBars)]
     = [nostrike, nostrike, nostrike, nostrike]
   \<and> maxEntries < length [nostrike, nostrike, nostrike, nostrike]"
  by (simp add: scenario)

text \<open>
  Claim C5, amended: in a session, which starts with no straddle position, at most
  \<open>maxEntries\<close> calls of \<^verbatim>\<open>enterPositions\<close> get past the strike lookup and enter a
  straddle; \<^verbatim>\<open>self.positions\<close> never holds more than \<open>maxEntries\<close> elements; and when
  it holds \<open>maxEntries\<close>, a bar neither calls \<^verbatim>\<open>enterPositions\<close> nor changes anything.
  The calls that find no strike are not bounded.
\<close>

theorem entries_bounded:
  assumes "within_session tr" "positions s = []"
  shows "length (filter (\<lambda>w. atmStrike w \<noteq> None) (enterPositionsCalls s tr)) \<le> maxEntries
    \<and> length (positions (run s tr)) \<le> maxEntries
    \<and> (length (positions (run s tr)) = maxEntries \<longrightarrow>
         onResampledBars w (run s tr) = run s tr
         \<and> enterPositionsCalls (run s tr) [(w, ResampledBars)] = [])"
proof -
  from assms(2) have "length (positions s) \<le> maxEntries" by simp
  from entries_run [OF assms(1) this] assms(2) show ?thesis
    by (simp add: onResampledBars_full)
qed

text \<open>For claim C5: the morning of the trading day is such a session, with one call.\<close>

theorem entries_bounded_witness:
  "within_session morning \<and> positions initial = []
   \<and> enterPositionsCalls initial morning = [quiet]
   \<and> length (filter (\<lambda>w. atmStrike w \<noteq> None) (enterPositionsCalls initial morning)) \<le> maxEntries
   \<and> length (positions (run initial morning)) \<le> maxEntries"
proof -
  have a: "within_session morning" by (simp add: morning_def)
  have b: "positions initial = []" by (simp add: initial_def)
  have c: "enterPositionsCalls initial morning = [quiet]" by (simp add: scenario)
  from entries_bounded [OF a b] a b c show ?thesis by blast
qed

section \<open>The phase\<close>

lemma callback_keeps_phase:
  assumes "is_callback ev" "state s = PLACING_ORDERS \<or> state s = SQUARING_OFF"
  shows "state (step w ev s) = state s"
proof (cases ev)
  case (EnterOk p)
  then show ?thesis by (simp add: onEnterOk_fields)
next
  case (EnterCanceled p)
  then show ?thesis by (simp add: onEnterCanceled_fields)
next
  case (ExitOk p)
  with assms(2) onExitOk_fields [of w p s] show ?thesis by auto
next
  case (ExitCanceled p)
  with assms(2) onExitCanceled_fields [of w p s] show ?thesis by auto
qed (use assms(1) in \<open>simp_all add: is_callback_def\<close>)

lemma handlePlacingOrders_phase:
  "(state (handlePlacingOrders w s) \<noteq> state s \<longrightarrow>
      pendingEntry s = {} \<and> pendingSLToCost s = {} \<and> pendingCancelExit s = {} \<and> pendingExit s = {}
      \<and> isPendingOrdersCompleted w)
   \<and> (pendingEntry s = {} \<and> pendingSLToCost s = {} \<and> pendingCancelExit s = {} \<and> pendingExit s = {}
      \<and> isPendingOrdersCompleted w \<longrightarrow>
      state (handlePlacingOrders w s) =
        (if state s = SQUARING_OFF \<and> exitTime \<le> currentTime w then EXITED
         else if getActivePositions w = [] then LIVE else ENTERED))"
  by (simp add: handlePlacingOrders_def)

lemma tick_phase:
  assumes "state s = PLACING_ORDERS \<or> state s = SQUARING_OFF" "currentTime w < marketEndTime w"
    and "state (step w Tick s) \<noteq> state s"
  shows "state (handlePlacingOrders w s) \<noteq> state s"
proof (rule ccontr)
  assume "\<not> state (handlePlacingOrders w s) \<noteq> state s"
  then have h: "state (handlePlacingOrders w s) = state s" by simp
  with assms(1) have "state (handlePlacingOrders w s) \<noteq> ENTERED" by auto
  with assms(1,2) h have "state (step w Tick s) = state s"
    by (auto simp: strategyLogic_def Let_def)
  with assms(3) show False by simp
qed

lemma filled_eval:
  "state filled = PLACING_ORDERS" "pendingEntry filled = {}" "pendingSLToCost filled = {}"
  "pendingCancelExit filled = {}" "pendingExit filled = {}"
  by (simp_all add: scenario)

lemma unwinding_eval:
  "state unwinding = SQUARING_OFF" "pendingEntry unwinding = {}" "pendingSLToCost unwinding = {}"
  "pendingCancelExit unwinding = {Some 3, Some 2}"
  "pendingExit unwinding = {Some 3, Some 2, Some 1, Some 0}" "nextPosition unwinding = 4"
  "length (positions unwinding) = 1"
  by (simp_all add: unwinding_def scenario)

text \<open>
  Claim C3 as stated fails: \<^verbatim>\<open>enterPositions\<close> sets the phase to \<open>PLACING_ORDERS\<close>
  whatever the phase and the pending sets are, and the trigger of \<^verbatim>\<open>onResampledBars\<close>
  does not look at the phase. On the trading day, the bar after the exit time finds
  the phase \<open>SQUARING_OFF\<close> with four exits pending and changes it.
\<close>

theorem phase_changes_while_pending:
  "state unwinding = SQUARING_OFF
   \<and> pendingExit unwinding = {Some 3, Some 2, Some 1, Some 0}
   \<and> pendingCancelExit unwinding = {Some 3, Some 2}
   \<and> state (step closing ResampledBars unwinding) = PLACING_ORDERS
   \<and> pendingExit (step closing ResampledBars unwinding) = {Some 3, Some 2, Some 1, Some 0}"
  by (simp add: unwinding_def scenario)

text \<open>
  Claim C3, amended: while the phase is \<open>PLACING_ORDERS\<close> or \<open>SQUARING_OFF\<close>, none of
  the four callbacks changes it; \<^verbatim>\<open>handlePlacingOrders\<close>, and with it a tick of the
  driver before the end of the market, changes it only when all four pending sets are
  empty and the base class reports its pending orders completed, and then the new phase
  is \<open>EXITED\<close> if the phase was \<open>SQUARING_OFF\<close> and the time is at or past the exit
  time, else \<open>LIVE\<close> if no position is active, else \<open>ENTERED\<close>. A resampled bar sets
  the phase to \<open>PLACING_ORDERS\<close> whenever it enters a straddle, pending sets or not.
\<close>

theorem phase_changes:
  assumes "state s = PLACING_ORDERS \<or> state s = SQUARING_OFF"
  shows "(is_callback ev \<longrightarrow> state (step w ev s) = state s)
    \<and> (state (handlePlacingOrders w s) \<noteq> state s \<or>
         (currentTime w < marketEndTime w \<and> state (step w Tick s) \<noteq> state s) \<longrightarrow>
         pendingEntry s = {} \<and> pendingSLToCost s = {} \<and> pendingCancelExit s = {} \<and> pendingExit s = {}
         \<and> isPendingOrdersCompleted w)
    \<and> (pendingEntry s = {} \<and> pendingSLToCost s = {} \<and> pendingCancelExit s = {} \<and> pendingExit s = {}
         \<and> isPendingOrdersCompleted w \<longrightarrow>
         state (handlePlacingOrders w s) =
           (if state s = SQUARING_OFF \<and> exitTime \<le> currentTime w then EXITED
            else if getActivePositions w = [] then LIVE else ENTERED))
    \<and> state (step w ResampledBars s) =
         (if length (positions s) \<noteq> maxEntries \<and> atmStrike w \<noteq> None then PLACING_ORDERS else state s)"
proof -
  have bars: "state (step w ResampledBars s) =
         (if length (positions s) \<noteq> maxEntries \<and> atmStrike w \<noteq> None then PLACING_ORDERS else state s)"
  proof (cases "length (positions s) = maxEntries")
    case True
    then show ?thesis by (simp add: onResampledBars_full)
  next
    case False
    show ?thesis
    proof (cases "atmStrike w")
      case None
      with False show ?thesis by (simp add: onResampledBars_None)
    next
      case (Some atm)
      from enterPositions_result [OF Some, of s] obtain g s'
        where "enterPositions w s = Inr (Some g, s')" "state s' = PLACING_ORDERS" by blast
      with False Some show ?thesis by (simp add: onResampledBars_def)
    qed
  qed
  show ?thesis
    using assms callback_keeps_phase [of ev s w] handlePlacingOrders_phase [of w s] tick_phase [of s w] bars
    by blast
qed

text \<open>
  For claim C3, on the trading day, once the four entries have filled: the phase is
  \<open>PLACING_ORDERS\<close>, nothing is pending, the recomputation gives \<open>ENTERED\<close>, and a
  callback leaves the phase alone.
\<close>

theorem phase_changes_witness:
  "state filled = PLACING_ORDERS
   \<and> pendingEntry filled = {} \<and> pendingSLToCost filled = {} \<and> pendingCancelExit filled = {}
   \<and> pendingExit filled = {} \<and> isPendingOrdersCompleted holding
   \<and> state (handlePlacingOrders holding filled) = ENTERED
   \<and> state (step holding (ExitCanceled 2) filled) = PLACING_ORDERS"
proof -
  have p: "state filled = PLACING_ORDERS \<or> state filled = SQUARING_OFF"
    by (simp add: filled_eval)
  have c: "isPendingOrdersCompleted holding" "getActivePositions holding \<noteq> []"
    by (simp_all add: holding_def quiet_def)
  from phase_changes [OF p, of "ExitCanceled 2" holding] filled_eval c show ?thesis
    by (simp add: is_callback_def)
qed

section \<open>Duplicate callbacks\<close>























section \<open>The pending sets\<close>

lemma tracker_inv_shrink:
  assumes "tracker_inv s" "pendingEntry s' \<subseteq> pendingEntry s"
    and "pendingSLToCost s' \<subseteq> pendingSLToCost s" "pendingCancelExit s' \<subseteq> pendingCancelExit s"
    and "positions s' = positions s" "nextPosition s' = nextPosition s"
  shows "tracker_inv s'"
  using assms unfolding tracker_inv_def by (auto 0 3)

lemma tracker_inv_parts:
  "tracker_inv s \<longleftrightarrow>
     (\<forall>x \<in> pendingSLToCost s. \<exists>p. x = Some p \<and> p < nextPosition s)
     \<and> (\<forall>x \<in> pendingCancelExit s. \<exists>p. x = Some p \<and> p < nextPosition s)
     \<and> (\<forall>g p. Some g \<in> set (positions s) \<longrightarrow> ceShort g = Some p \<or> peShort g = Some p
            \<longrightarrow> p < nextPosition s)
     \<and> pendingEntry s \<inter> pendingSLToCost s = {}
     \<and> pendingEntry s \<inter> pendingCancelExit s = {}"
  unfolding tracker_inv_def by blast

lemma tracker_inv_ExitOk:
  assumes "tracker_inv s" "broker_consistent w s"
  shows "tracker_inv (after (onExitOk w p s))"
proof -
  let ?s' = "after (onExitOk w p s)"
  note f = onExitOk_fields [of w p s]
  note f2 = f [THEN conjunct2]
  note f3 = f2 [THEN conjunct2]
  note f4 = f3 [THEN conjunct2]
  note f5 = f4 [THEN conjunct2]
  note f6 = f5 [THEN conjunct2]
  have eqs: "pendingEntry ?s' = pendingEntry s" "pendingCancelExit ?s' = pendingCancelExit s"
    "positions ?s' = positions s" "nextPosition ?s' = nextPosition s"
    by (rule f2 [THEN conjunct1], rule f4 [THEN conjunct1], rule f6 [THEN conjunct1], rule f6 [THEN conjunct2])
  from f3 [THEN conjunct1] consider (same) "pendingSLToCost ?s' = pendingSLToCost s"
    | (added) g other where "Some g \<in> set (positions s)" "ceShort g = Some other \<or> peShort g = Some other"
        "exitActive w other" "pendingSLToCost ?s' = insert (Some other) (pendingSLToCost s)"
    by blast
  then show ?thesis
  proof cases
    case same
    show ?thesis by (rule tracker_inv_shrink [OF assms(1)]) (simp_all only: eqs same subset_refl)
  next
    case added
    from assms(1) have i: "\<forall>x \<in> pendingSLToCost s. \<exists>p. x = Some p \<and> p < nextPosition s"
      "\<forall>x \<in> pendingCancelExit s. \<exists>p. x = Some p \<and> p < nextPosition s"
      "\<forall>g p. Some g \<in> set (positions s) \<longrightarrow> ceShort g = Some p \<or> peShort g = Some p
            \<longrightarrow> p < nextPosition s"
      "pendingEntry s \<inter> pendingSLToCost s = {}" "pendingEntry s \<inter> pendingCancelExit s = {}"
      unfolding tracker_inv_parts by blast+
    from i(3) added(1,2) have lt: "other < nextPosition s" by blast
    from assms(2) added(3) have ne: "Some other \<notin> pendingEntry s"
      unfolding broker_consistent_def by blast
    have a: "\<forall>x \<in> insert (Some other) (pendingSLToCost s). \<exists>p. x = Some p \<and> p < nextPosition s"
      using i(1) lt by simp
    have c: "pendingEntry s \<inter> insert (Some other) (pendingSLToCost s) = {}"
      using i(4) ne by simp
    show ?thesis
      unfolding tracker_inv_parts eqs added(4) using a c i(2,3,5) by blast
  qed
qed

lemma tracker_inv_closeAllPositions:
  assumes "tracker_inv s" "broker_consistent w s"
  shows "tracker_inv (after (closeAllPositions w s))"
proof -
  obtain s' where r: "closeAllPositions w s = Inr s'" "pendingEntry s' = pendingEntry s"
    "pendingSLToCost s' = pendingSLToCost s" "positions s' = positions s"
    "nextPosition s' = nextPosition s"
    "pendingCancelExit s' = pendingCancelExit s \<union> Some ` {p \<in> set (getActivePositions w). exitActive w p}"
    using closeAllPositions_result [of w s] by blast
  have "tracker_inv s'"
    using assms unfolding tracker_inv_def broker_consistent_def r(2-6) by auto
  with r(1) show ?thesis by (simp add: after_def)
qed

lemma tracker_inv_reset: "tracker_inv (reset s)"
  by (simp add: tracker_inv_def reset_def)

lemma tracker_inv_handlePlacingOrders:
  "tracker_inv s \<Longrightarrow> tracker_inv (handlePlacingOrders w s)"
  by (rule tracker_inv_shrink [of s]) (simp_all add: handlePlacingOrders_fields)

lemma broker_consistent_handlePlacingOrders:
  "broker_consistent w s \<Longrightarrow> broker_consistent w (handlePlacingOrders w' s)"
  by (simp add: broker_consistent_def handlePlacingOrders_fields)

lemma tracker_inv_Tick:
  assumes "tracker_inv s" "broker_consistent w s"
  shows "tracker_inv (strategyLogic w s)"
proof -
  let ?s1 = "if state s = PLACING_ORDERS \<or> state s = SQUARING_OFF then handlePlacingOrders w s else s"
  have i: "tracker_inv ?s1" using assms(1) by (simp add: tracker_inv_handlePlacingOrders)
  have c: "broker_consistent w ?s1" using assms(2) by (simp add: broker_consistent_handlePlacingOrders)
  have "tracker_inv (after (closeAllPositions w ?s1))"
    using i c by (rule tracker_inv_closeAllPositions)
  then have "tracker_inv (case closeAllPositions w ?s1 of Inl (e, s') \<Rightarrow> s' | Inr s' \<Rightarrow> s')"
    by (simp add: after_def)
  with i show ?thesis
    unfolding strategyLogic_def Let_def by (simp add: tracker_inv_reset)
qed

lemma tracker_inv_ResampledBars:
  assumes "tracker_inv s"
  shows "tracker_inv (onResampledBars w s)"
proof (cases "length (positions s) = maxEntries")
  case True
  with assms show ?thesis by (simp add: onResampledBars_full)
next
  case False
  show ?thesis
  proof (cases "atmStrike w")
    case None
    have "\<And>g. Some g \<in> set (positions_add None (positions s)) \<longleftrightarrow> Some g \<in> set (positions s)"
      by (simp add: positions_add_def)
    with assms show ?thesis
      unfolding onResampledBars_None [OF None False] tracker_inv_def by simp
  next
    case (Some atm)
    from enterPositions_result [OF Some, of s] obtain g s' where r:
      "enterPositions w s = Inr (Some g, s')"
      "pendingSLToCost s' = pendingSLToCost s" "pendingCancelExit s' = pendingCancelExit s"
      "positions s' = positions s" "nextPosition s \<le> nextPosition s'"
      "pendingEntry s' = pendingEntry s \<union> {ceHedge g, peHedge g, ceShort g, peShort g}"
      "\<forall>p. Some p \<in> {ceHedge g, peHedge g, ceShort g, peShort g}
            \<longrightarrow> nextPosition s \<le> p \<and> p < nextPosition s'"
      by blast
    let ?t = "s'\<lparr>positions := positions s @ [Some g]\<rparr>"
    have t: "onResampledBars w s = ?t"
      using False r(1,4) by (simp add: onResampledBars_def positions_add_def)
    have tf: "pendingSLToCost ?t = pendingSLToCost s" "pendingCancelExit ?t = pendingCancelExit s"
      "positions ?t = positions s @ [Some g]" "nextPosition ?t = nextPosition s'"
      "pendingEntry ?t = pendingEntry s \<union> {ceHedge g, peHedge g, ceShort g, peShort g}"
      using r(2,3,6) by simp_all
    from assms have i: "\<forall>x \<in> pendingSLToCost s. \<exists>p. x = Some p \<and> p < nextPosition s"
      "\<forall>x \<in> pendingCancelExit s. \<exists>p. x = Some p \<and> p < nextPosition s"
      "\<forall>h p. Some h \<in> set (positions s) \<longrightarrow> ceShort h = Some p \<or> peShort h = Some p
            \<longrightarrow> p < nextPosition s"
      "pendingEntry s \<inter> pendingSLToCost s = {}" "pendingEntry s \<inter> pendingCancelExit s = {}"
      unfolding tracker_inv_parts by blast+
    have new: "nextPosition s \<le> p" if "x \<in> {ceHedge g, peHedge g, ceShort g, peShort g}" "x = Some p" for x p
    proof -
      from that have "Some p \<in> {ceHedge g, peHedge g, ceShort g, peShort g}" by simp
      from r(7) [rule_format, OF this] show ?thesis ..
    qed
    have a1: "\<forall>x \<in> pendingSLToCost s. \<exists>p. x = Some p \<and> p < nextPosition s'"
    proof
      fix x assume "x \<in> pendingSLToCost s"
      with i(1) obtain p where "x = Some p" "p < nextPosition s" by blast
      with r(5) show "\<exists>p. x = Some p \<and> p < nextPosition s'" by auto
    qed
    have a2: "\<forall>x \<in> pendingCancelExit s. \<exists>p. x = Some p \<and> p < nextPosition s'"
    proof
      fix x assume "x \<in> pendingCancelExit s"
      with i(2) obtain p where "x = Some p" "p < nextPosition s" by blast
      with r(5) show "\<exists>p. x = Some p \<and> p < nextPosition s'" by auto
    qed
    have b: "\<forall>h p. Some h \<in> set (positions s @ [Some g]) \<longrightarrow> ceShort h = Some p \<or> peShort h = Some p
            \<longrightarrow> p < nextPosition s'"
    proof (intro allI impI)
      fix h p assume h: "Some h \<in> set (positions s @ [Some g])" and p: "ceShort h = Some p \<or> peShort h = Some p"
      show "p < nextPosition s'"
      proof (cases "h = g")
        case True
        with p r(7) show ?thesis by auto
      next
        case False
        with h have "Some h \<in> set (positions s)" by simp
        with i(3) p have "p < nextPosition s" by blast
        with r(5) show ?thesis by simp
      qed
    qed
    have c1: "(pendingEntry s \<union> {ceHedge g, peHedge g, ceShort g, peShort g}) \<inter> pendingSLToCost s = {}"
    proof (rule ccontr)
      assume "(pendingEntry s \<union> {ceHedge g, peHedge g, ceShort g, peShort g}) \<inter> pendingSLToCost s \<noteq> {}"
      then obtain x where x: "x \<in> pendingEntry s \<or> x \<in> {ceHedge g, peHedge g, ceShort g, peShort g}"
        "x \<in> pendingSLToCost s" by blast
      from i(1) x(2) obtain p where p: "x = Some p" "p < nextPosition s" by blast
      from x(1) show False
      proof
        assume "x \<in> pendingEntry s"
        with i(4) x(2) show False by blast
      next
        assume "x \<in> {ceHedge g, peHedge g, ceShort g, peShort g}"
        from new [OF this p(1)] p(2) show False by simp
      qed
    qed
    have c2: "(pendingEntry s \<union> {ceHedge g, peHedge g, ceShort g, peShort g}) \<inter> pendingCancelExit s = {}"
    proof (rule ccontr)
      assume "(pendingEntry s \<union> {ceHedge g, peHedge g, ceShort g, peShort g}) \<inter> pendingCancelExit s \<noteq> {}"
      then obtain x where x: "x \<in> pendingEntry s \<or> x \<in> {ceHedge g, peHedge g, ceShort g, peShort g}"
        "x \<in> pendingCancelExit s" by blast
      from i(2) x(2) obtain p where p: "x = Some p" "p < nextPosition s" by blast
      from x(1) show False
      proof
        assume "x \<in> pendingEntry s"
        with i(5) x(2) show False by blast
      next
        assume "x \<in> {ceHedge g, peHedge g, ceShort g, peShort g}"
        from new [OF this p(1)] p(2) show False by simp
      qed
    qed
    show ?thesis
      unfolding t tracker_inv_parts tf using a1 a2 b c1 c2 by (intro conjI)
  qed
qed

lemma tracker_inv_step:
  assumes "tracker_inv s" "broker_consistent w s"
  shows "tracker_inv (step w ev s)"
proof (cases ev)
  case ResampledBars
  with assms(1) show ?thesis by (simp add: tracker_inv_ResampledBars)
next
  case Tick
  with assms show ?thesis by (simp add: tracker_inv_Tick)
next
  case CloseAllPositions
  with assms show ?thesis by (simp add: tracker_inv_closeAllPositions)
next
  case (EnterOk p)
  have "tracker_inv (after (onEnterOk w p s))"
    using assms(1) by (rule tracker_inv_shrink) (simp_all add: onEnterOk_fields)
  with EnterOk show ?thesis by simp
next
  case (EnterCanceled p)
  have "tracker_inv (after (onEnterCanceled w p s))"
    using assms(1) by (rule tracker_inv_shrink) (simp_all add: onEnterCanceled_fields)
  with EnterCanceled show ?thesis by simp
next
  case (ExitOk p)
  with assms show ?thesis by (simp add: tracker_inv_ExitOk)
next
  case (ExitCanceled p)
  have "tracker_inv (after (onExitCanceled w p s))"
    using assms(1) by (rule tracker_inv_shrink) (simp_all add: onExitCanceled_fields)
  with ExitCanceled show ?thesis by simp
qed

lemma tracker_inv_run:
  "tracker_inv s \<Longrightarrow> consistent_run s tr \<Longrightarrow> tracker_inv (run s tr)"
proof (induction tr arbitrary: s)
  case Nil
  then show ?case by simp
next
  case (Cons x tr)
  obtain w ev where x: "x = (w, ev)" by (cases x)
  with Cons.prems have "tracker_inv (step w ev s)" "consistent_run (step w ev s) tr"
    by (simp_all add: tracker_inv_step)
  with Cons.IH x show ?case by simp
qed

lemma afternoon_eval:
  "pendingSLToCost (run initial afternoon) = {Some 3}"
  "pendingCancelExit (run initial afternoon) = {Some 3, Some 2}"
  "pendingEntry (run initial afternoon) = {Some 7, Some 6, Some 5, Some 4}"
  "state (run initial afternoon) = PLACING_ORDERS"
  by (simp_all add: afternoon_def racing_def scenario)

lemma afternoon_consistent: "consistent_run initial afternoon"
  by (simp add: afternoon_def racing_def scenario broker_consistent_def)

text \<open>
  Claim C2 as stated fails. On the trading day the tick at the exit time asks for the
  cancellation of the stops of the short legs 2 and 3 and puts both legs into
  \<open>pendingCancelExit\<close>; the next bar enters a second straddle, which takes the phase out
  of \<open>SQUARING_OFF\<close>; then the stop of leg 2 fills before its cancellation arrives,
  and the exit-confirmed handler, finding the stop of leg 3 still live, puts leg 3 into
  \<open>pendingSLToCost\<close> as well. Every answer of the broker in this run is consistent.
\<close>

theorem pending_sets_overlap:
  "consistent_run initial afternoon
   \<and> Some 3 \<in> pendingSLToCost (run initial afternoon)
   \<and> Some 3 \<in> pendingCancelExit (run initial afternoon)"
  using afternoon_consistent by (simp add: afternoon_eval)

text \<open>
  Claim C2, amended: in every state reached from the initial one by resampled bars,
  ticks, calls of \<^verbatim>\<open>closeAllPositions\<close> and callbacks, in any order, during which the
  broker reports as active only positions the strategy has created and reports no live
  exit order for a position whose entry is pending, no element of \<open>pendingEntry\<close> is in
  \<open>pendingSLToCost\<close> or in \<open>pendingCancelExit\<close>. The latter two sets can share a leg.
\<close>

theorem pendingEntry_disjoint:
  assumes "consistent_run initial tr"
  shows "pendingEntry (run initial tr)
     \<inter> (pendingSLToCost (run initial tr) \<union> pendingCancelExit (run initial tr)) = {}"
proof -
  have "tracker_inv initial" by (simp add: tracker_inv_def initial_def)
  from tracker_inv_run [OF this assms] show ?thesis by (simp add: tracker_inv_def)
qed

text \<open>
  For claim C2: the run of the trading day above is consistent, and four entries are
  pending at its end.
\<close>

theorem pendingEntry_disjoint_witness:
  "consistent_run initial afternoon
   \<and> pendingEntry (run initial afternoon) = {Some 7, Some 6, Some 5, Some 4}
   \<and> pendingEntry (run initial afternoon)
       \<inter> (pendingSLToCost (run initial afternoon) \<union> pendingCancelExit (run initial afternoon)) = {}"
  using pendingEntry_disjoint [OF afternoon_consistent] afternoon_consistent afternoon_eval(3)
  by (intro conjI)

section \<open>A leg without a reference price\<close>

text \<open>
  Claim C1, at a bar on which the call hedge has no last bar (the positions 0, 1 and 2
  are then the put hedge and the two short legs): its submission is skipped, three
  orders are sent, and \<^verbatim>\<open>enterPositions\<close> adds the \<^verbatim>\<open>None\<close> that
  \<^verbatim>\<open>enterWithMarketProtection\<close> returned for the skipped leg to \<open>pendingEntry\<close> with the
  three positions. No callback removes it: after the three entries have filled
  \<open>pendingEntry\<close> is \<open>{None}\<close>, and the driver's tick leaves the phase at
  \<open>PLACING_ORDERS\<close>.
\<close>

theorem skipped_leg_pending:
  "getLastBar nobar (getOptionSymbol nobar (100 + hedgesNStrikesAway * strikeDifference nobar) CHR ''c'') = None
   \<and> pendingEntry (step nobar ResampledBars initial) = {Some 2, Some 1, Some 0, None}
   \<and> length (requests (step nobar ResampledBars initial)) = 3
   \<and> pendingEntry (run initial [(nobar, ResampledBars), (quiet, EnterOk 0), (quiet, EnterOk 1), (quiet, EnterOk 2)])
       = {None}
   \<and> state (run initial [(nobar, ResampledBars), (quiet, EnterOk 0), (quiet, EnterOk 1), (quiet, EnterOk 2),
        (quiet\<lparr>getActivePositions := [0, 1, 2]\<rparr>, Tick)]) = PLACING_ORDERS"
  by (simp add: nobar_def scenario)


end
